theory Spec2Isabelle
  imports Main "HOL-Library.Sublist" "HOL-Library.AList" "HOL-Library.Char_ord"
    "HOL-Library.List_Lexorder"
begin

section \<open>Go strings\<close>

text \<open>
  A Go string is a sequence of bytes, here a \<^typ>\<open>string\<close> (a list of 8-bit characters).
  A \<open>range\<close> loop over a string reads it rune by rune: each step decodes one UTF-8
  sequence, and a byte that starts no well-formed sequence yields the rune \<open>U+FFFD\<close> and
  is one byte wide.  Runes are natural numbers.
\<close>

definition RuneError :: nat where
  "RuneError = 0xFFFD"

definition is_cont :: "nat \<Rightarrow> bool" where
  "is_cont b \<longleftrightarrow> 0x80 \<le> b \<and> b \<le> 0xBF"

text \<open>\<open>utf8.DecodeRuneInString\<close>: the first rune of the string and its width in bytes.\<close>

fun utf8_DecodeRune :: "string \<Rightarrow> nat \<times> nat" where
  "utf8_DecodeRune [] = (RuneError, 0)"
| "utf8_DecodeRune (c0 # cs) =
     (let b0 = (of_char c0 :: nat) in
      if b0 < 0x80 then (b0, 1)
      else if 0xC2 \<le> b0 \<and> b0 \<le> 0xDF then
        (case cs of
           c1 # _ \<Rightarrow>
             (let b1 = (of_char c1 :: nat) in
              if is_cont b1 then ((b0 - 0xC0) * 64 + (b1 - 0x80), 2) else (RuneError, 1))
         | _ \<Rightarrow> (RuneError, 1))
      else if 0xE0 \<le> b0 \<and> b0 \<le> 0xEF then
        (case cs of
           c1 # c2 # _ \<Rightarrow>
             (let b1 = (of_char c1 :: nat); b2 = (of_char c2 :: nat);
                  lo = (if b0 = 0xE0 then 0xA0 else 0x80);
                  hi = (if b0 = 0xED then 0x9F else 0xBF) in
              if lo \<le> b1 \<and> b1 \<le> hi \<and> is_cont b2
              then ((b0 - 0xE0) * 4096 + (b1 - 0x80) * 64 + (b2 - 0x80), 3)
              else (RuneError, 1))
         | _ \<Rightarrow> (RuneError, 1))
      else if 0xF0 \<le> b0 \<and> b0 \<le> 0xF4 then
        (case cs of
           c1 # c2 # c3 # _ \<Rightarrow>
             (let b1 = (of_char c1 :: nat); b2 = (of_char c2 :: nat); b3 = (of_char c3 :: nat);
                  lo = (if b0 = 0xF0 then 0x90 else 0x80);
                  hi = (if b0 = 0xF4 then 0x8F else 0xBF) in
              if lo \<le> b1 \<and> b1 \<le> hi \<and> is_cont b2 \<and> is_cont b3
              then ((b0 - 0xF0) * 262144 + (b1 - 0x80) * 4096 + (b2 - 0x80) * 64 + (b3 - 0x80), 4)
              else (RuneError, 1))
         | _ \<Rightarrow> (RuneError, 1))
      else (RuneError, 1))"

text \<open>
  The runes a \<open>range\<close> loop over the string yields, in order.  The width of a rune of a
  non-empty string is at least one, so the next rune starts \<open>width - 1\<close> bytes into the
  tail.
\<close>

fun runes :: "string \<Rightarrow> nat list" where
  "runes [] = []"
| "runes (c # cs) =
     fst (utf8_DecodeRune (c # cs)) # runes (drop (snd (utf8_DecodeRune (c # cs)) - 1) cs)"

text \<open>\<open>utf8.AppendRune\<close>: a surrogate or a rune past \<open>U+10FFFF\<close> is written as \<open>U+FFFD\<close>.\<close>

definition utf8_EncodeRune :: "nat \<Rightarrow> string" where
  "utf8_EncodeRune r =
     (if r < 0x80 then [char_of r]
      else if r < 0x800 then [char_of (0xC0 + r div 64), char_of (0x80 + r mod 64)]
      else if 0x10FFFF < r \<or> (0xD800 \<le> r \<and> r \<le> 0xDFFF) then
        [char_of (0xEF :: nat), char_of (0xBF :: nat), char_of (0xBD :: nat)]
      else if r < 0x10000 then
        [char_of (0xE0 + r div 4096), char_of (0x80 + (r div 64) mod 64), char_of (0x80 + r mod 64)]
      else
        [char_of (0xF0 + r div 262144), char_of (0x80 + (r div 4096) mod 64),
         char_of (0x80 + (r div 64) mod 64), char_of (0x80 + r mod 64)])"

text \<open>
  \<open>unicode.ToLower\<close>: ASCII is handled inline; every other rune is looked up in the
  Unicode case tables of the Go library, which are the parameter \<open>lc\<close>.
\<close>

definition unicode_ToLower :: "(nat \<Rightarrow> nat) \<Rightarrow> nat \<Rightarrow> nat" where
  "unicode_ToLower lc r =
     (if r < 0x80 then (if 0x41 \<le> r \<and> r \<le> 0x5A then r + 0x20 else r) else lc r)"

text \<open>
  \<open>strings.ToLower\<close>: a string of ASCII bytes is lowered byte by byte; any other string
  is mapped rune by rune (\<open>strings.Map\<close>), each result written back in UTF-8.
\<close>

definition strings_ToLower :: "(nat \<Rightarrow> nat) \<Rightarrow> string \<Rightarrow> string" where
  "strings_ToLower lc s =
     (if list_all (\<lambda>c. (of_char c :: nat) < 0x80) s
      then map (\<lambda>c. char_of (unicode_ToLower lc (of_char c))) s
      else concat (map (\<lambda>r. utf8_EncodeRune (unicode_ToLower lc r)) (runes s)))"

text \<open>\<open>strings.Contains(s, sub)\<close>: \<open>sub\<close> occurs in \<open>s\<close> as a contiguous run.\<close>

definition strings_Contains :: "string \<Rightarrow> string \<Rightarrow> bool" where
  "strings_Contains s sub = sublist sub s"

text \<open>\<open>strings.HasPrefix\<close> and \<open>strings.HasSuffix\<close>.\<close>

definition strings_HasPrefix :: "string \<Rightarrow> string \<Rightarrow> bool" where
  "strings_HasPrefix s p = prefix p s"

definition strings_HasSuffix :: "string \<Rightarrow> string \<Rightarrow> bool" where
  "strings_HasSuffix s p = suffix p s"

text \<open>
  \<open>strings.ReplaceAll(s, old, new)\<close> for a non-empty \<open>old\<close>: the occurrences are replaced
  from the left and do not overlap.
\<close>

function strings_ReplaceAll :: "string \<Rightarrow> string \<Rightarrow> string \<Rightarrow> string" where
  "strings_ReplaceAll [] old new = []"
| "strings_ReplaceAll (c # cs) old new =
     (if old \<noteq> [] \<and> prefix old (c # cs)
      then new @ strings_ReplaceAll (drop (length old) (c # cs)) old new
      else c # strings_ReplaceAll cs old new)"
  by pat_completeness auto
termination
  by (relation "measure (\<lambda>(s, old, new). length s)") auto

text \<open>
  \<open>strings.Trim(s, cutset)\<close> for a cutset of ASCII characters: the leading and trailing
  bytes that are in the cutset are removed.
\<close>

definition strings_Trim :: "string \<Rightarrow> string \<Rightarrow> string" where
  "strings_Trim s cutset =
     rev (dropWhile (\<lambda>c. c \<in> set cutset) (rev (dropWhile (\<lambda>c. c \<in> set cutset) s)))"

section \<open>Router names\<close>

text \<open>
  \<open>sanitizeRouterName\<close>, first loop: every rune of the lowered name that is not in
  \<open>a-z\<close> or \<open>0-9\<close> is written as a hyphen.
\<close>

definition sanitize_rune :: "nat \<Rightarrow> char" where
  "sanitize_rune r =
     (if (0x61 \<le> r \<and> r \<le> 0x7A) \<or> (0x30 \<le> r \<and> r \<le> 0x39) then char_of r else CHR ''-'')"

lemma ReplaceAll_length_le:
  "length new \<le> length old \<Longrightarrow> length (strings_ReplaceAll s old new) \<le> length s"
proof (induction s old new rule: strings_ReplaceAll.induct)
  case (1 old new)
  then show ?case by simp
next
  case (2 c cs old new)
  show ?case
  proof (cases "old \<noteq> [] \<and> prefix old (c # cs)")
    case True
    then have len: "length old \<le> length (c # cs)"
      using prefix_length_le [of old "c # cs"] by simp
    from 2 True have "length (strings_ReplaceAll (drop (length old) (c # cs)) old new)
        \<le> length (c # cs) - length old"
      by simp
    with True len 2(3) show ?thesis by simp
  next
    case False
    with 2 show ?thesis by auto
  qed
qed

lemma ReplaceAll_length_less:
  "length new < length old \<Longrightarrow> sublist old s \<Longrightarrow>
   length (strings_ReplaceAll s old new) < length s"
proof (induction s old new rule: strings_ReplaceAll.induct)
  case (1 old new)
  then show ?case by simp
next
  case (2 c cs old new)
  show ?case
  proof (cases "old \<noteq> [] \<and> prefix old (c # cs)")
    case True
    then have len: "length old \<le> length (c # cs)"
      using prefix_length_le [of old "c # cs"] by simp
    have "length (strings_ReplaceAll (drop (length old) (c # cs)) old new)
        \<le> length (c # cs) - length old"
      using ReplaceAll_length_le [of new old "drop (length old) (c # cs)"] 2(3) by simp
    with True len 2(3) show ?thesis by simp
  next
    case False
    with 2(4) have "sublist old cs"
      by (auto simp: sublist_Cons_right)
    with 2 False show ?thesis by auto
  qed
qed

text \<open>The second loop: while the string contains two hyphens in a row, replace all.\<close>

function collapse_hyphens :: "string \<Rightarrow> string" where
  "collapse_hyphens s =
     (if strings_Contains s ''--'' then collapse_hyphens (strings_ReplaceAll s ''--'' ''-'')
      else s)"
  by pat_completeness auto
termination
  by (relation "measure length")
    (auto simp: strings_Contains_def intro: ReplaceAll_length_less)

declare collapse_hyphens.simps [simp del]

definition sanitizeRouterName :: "(nat \<Rightarrow> nat) \<Rightarrow> string \<Rightarrow> string" where
  "sanitizeRouterName lc name =
     (let result = map sanitize_rune (runes (strings_ToLower lc name));
          cleaned = collapse_hyphens result
      in strings_Trim cleaned ''-'')"

text \<open>The characters of a routing-engine token: \<open>a-z\<close>, \<open>0-9\<close> and the hyphen.\<close>

definition is_router_char :: "char \<Rightarrow> bool" where
  "is_router_char c \<longleftrightarrow>
     (0x61 \<le> (of_char c :: nat) \<and> (of_char c :: nat) \<le> 0x7A) \<or>
     (0x30 \<le> (of_char c :: nat) \<and> (of_char c :: nat) \<le> 0x39) \<or> c = CHR ''-''"

subsection \<open>Properties of the router name\<close>

lemma sanitize_rune_ok: "is_router_char (sanitize_rune r)"
proof (cases "(0x61 \<le> r \<and> r \<le> 0x7A) \<or> (0x30 \<le> r \<and> r \<le> 0x39)")
  case True
  then have "r < 256" by auto
  then have "(of_char (char_of r) :: nat) = r" by simp
  with True show ?thesis unfolding sanitize_rune_def is_router_char_def by auto
next
  case False
  then show ?thesis by (simp add: sanitize_rune_def is_router_char_def)
qed

lemma router_char_code: "is_router_char c \<Longrightarrow>
  (of_char c :: nat) < 0x80 \<and> \<not> (0x41 \<le> (of_char c :: nat) \<and> (of_char c :: nat) \<le> 0x5A)"
  unfolding is_router_char_def by (elim disjE) simp_all

lemma router_char_lower: "is_router_char c \<Longrightarrow> char_of (unicode_ToLower lc (of_char c)) = c"
  using router_char_code [of c] unfolding unicode_ToLower_def by auto

lemma router_char_sanitize: "is_router_char c \<Longrightarrow> sanitize_rune (of_char c) = c"
  unfolding is_router_char_def sanitize_rune_def by (elim disjE) simp_all

lemma set_ReplaceAll: "set (strings_ReplaceAll s old new) \<subseteq> set s \<union> set new"
proof (induction s old new rule: strings_ReplaceAll.induct)
  case (1 old new)
  then show ?case by simp
next
  case (2 c cs old new)
  show ?case
  proof (cases "old \<noteq> [] \<and> prefix old (c # cs)")
    case True
    with 2 have "set (strings_ReplaceAll (drop (length old) (c # cs)) old new)
       \<subseteq> set (drop (length old) (c # cs)) \<union> set new" by simp
    moreover have "set (drop (length old) (c # cs)) \<subseteq> set (c # cs)"
      by (rule set_drop_subset)
    ultimately show ?thesis using True by auto
  next
    case False
    with 2 show ?thesis by auto
  qed
qed

lemma collapse_chars: "list_all P s \<Longrightarrow> P CHR ''-'' \<Longrightarrow> list_all P (collapse_hyphens s)"
proof (induction s rule: collapse_hyphens.induct)
  case (1 s)
  show ?case
  proof (cases "strings_Contains s ''--''")
    case True
    have "set (strings_ReplaceAll s ''--'' ''-'') \<subseteq> set s \<union> set ''-''"
      by (rule set_ReplaceAll)
    with 1(2,3) have "list_all P (strings_ReplaceAll s ''--'' ''-'')"
      by (auto simp: list_all_iff)
    with 1 True show ?thesis by (subst collapse_hyphens.simps) simp
  next
    case False
    with 1 show ?thesis by (subst collapse_hyphens.simps) simp
  qed
qed

lemma collapse_no_double: "\<not> sublist ''--'' (collapse_hyphens s)"
proof (induction s rule: collapse_hyphens.induct)
  case (1 s)
  then show ?case
    by (subst collapse_hyphens.simps) (simp add: strings_Contains_def)
qed

lemma collapse_id: "\<not> sublist ''--'' s \<Longrightarrow> collapse_hyphens s = s"
  by (subst collapse_hyphens.simps) (simp add: strings_Contains_def)

lemma Trim_sublist: "sublist (strings_Trim s cs) s"
proof -
  have "sublist (rev (dropWhile (\<lambda>c. c \<in> set cs) (rev (dropWhile (\<lambda>c. c \<in> set cs) s))))
      (dropWhile (\<lambda>c. c \<in> set cs) s)"
    by (simp add: sublist_rev_left)
  moreover have "sublist (dropWhile (\<lambda>c. c \<in> set cs) s) s" by simp
  ultimately show ?thesis
    unfolding strings_Trim_def by (rule sublist_order.order_trans)
qed

lemma Trim_no_prefix: "\<not> prefix ''-'' (strings_Trim s ''-'')"
proof
  assume "prefix ''-'' (strings_Trim s ''-'')"
  then obtain t where t: "strings_Trim s ''-'' = CHR ''-'' # t"
    by (auto simp: prefix_def)
  define u where "u = rev (dropWhile (\<lambda>c. c \<in> set ''-'') s)"
  have "rev (dropWhile (\<lambda>c. c \<in> set ''-'') u) = CHR ''-'' # t"
    using t by (simp add: strings_Trim_def u_def)
  then have "dropWhile (\<lambda>c. c \<in> set ''-'') u = rev t @ ''-''"
    by (metis rev.simps(2) rev_rev_ident)
  then have "suffix (rev t @ ''-'') u"
    by (metis suffix_dropWhile)
  then have "last u = CHR ''-''" "u \<noteq> []"
    by (auto simp: suffix_def)
  then have "hd (dropWhile (\<lambda>c. c \<in> set ''-'') s) = CHR ''-''"
    and "dropWhile (\<lambda>c. c \<in> set ''-'') s \<noteq> []"
    by (auto simp: u_def last_rev)
  then show False
    using hd_dropWhile [of "\<lambda>c. c \<in> set ''-''" s] by simp
qed

lemma Trim_no_suffix: "\<not> suffix ''-'' (strings_Trim s ''-'')"
proof
  assume "suffix ''-'' (strings_Trim s ''-'')"
  then have "prefix ''-'' (rev (strings_Trim s ''-''))"
    by (simp add: suffix_to_prefix)
  then obtain t where t: "rev (strings_Trim s ''-'') = CHR ''-'' # t"
    by (auto simp: prefix_def)
  define u where "u = rev (dropWhile (\<lambda>c. c \<in> set ''-'') s)"
  have d: "dropWhile (\<lambda>c. c \<in> set ''-'') u = CHR ''-'' # t"
    using t by (simp add: strings_Trim_def u_def)
  then have "dropWhile (\<lambda>c. c \<in> set ''-'') u \<noteq> []" by simp
  then show False
    using hd_dropWhile [of "\<lambda>c. c \<in> set ''-''" u] d by simp
qed

lemma Trim_id: "\<not> prefix ''-'' s \<Longrightarrow> \<not> suffix ''-'' s \<Longrightarrow> strings_Trim s ''-'' = s"
proof -
  assume p: "\<not> prefix ''-'' s" and q: "\<not> suffix ''-'' s"
  have 1: "dropWhile (\<lambda>c. c \<in> set ''-'') s = s"
    using p by (cases s) auto
  have "\<not> prefix ''-'' (rev s)"
    using q by (simp add: suffix_to_prefix)
  then have 2: "dropWhile (\<lambda>c. c \<in> set ''-'') (rev s) = rev s"
    by (cases "rev s") auto
  show ?thesis unfolding strings_Trim_def 1 2 by simp
qed

lemma runes_ascii: "list_all (\<lambda>c. (of_char c :: nat) < 0x80) s \<Longrightarrow> runes s = map of_char s"
  by (induction s) (simp_all add: Let_def)

lemma sanitizeRouterName_shape:
  "list_all is_router_char (sanitizeRouterName lc name) \<and>
   \<not> prefix ''-'' (sanitizeRouterName lc name) \<and>
   \<not> suffix ''-'' (sanitizeRouterName lc name) \<and>
   \<not> sublist ''--'' (sanitizeRouterName lc name)"
proof -
  define res where "res = map sanitize_rune (runes (strings_ToLower lc name))"
  define out where "out = sanitizeRouterName lc name"
  have out_eq: "out = strings_Trim (collapse_hyphens res) ''-''"
    by (simp add: out_def sanitizeRouterName_def res_def)
  have "list_all is_router_char res"
    by (simp add: res_def list_all_iff sanitize_rune_ok)
  then have col: "list_all is_router_char (collapse_hyphens res)"
    by (rule collapse_chars) (simp add: is_router_char_def)
  have sub: "sublist out (collapse_hyphens res)"
    unfolding out_eq by (rule Trim_sublist)
  then have "set out \<subseteq> set (collapse_hyphens res)"
    by (rule set_mono_sublist)
  with col have chars: "list_all is_router_char out"
    by (auto simp: list_all_iff)
  have nd: "\<not> sublist ''--'' out"
    using collapse_no_double [of res] sub sublist_order.order_trans by blast
  have np: "\<not> prefix ''-'' out" and ns: "\<not> suffix ''-'' out"
    unfolding out_eq by (rule Trim_no_prefix, rule Trim_no_suffix)
  from chars np ns nd show ?thesis
    by (simp add: out_def)
qed

lemma sanitizeRouterName_fixed:
  assumes chars: "list_all is_router_char out" and np: "\<not> prefix ''-'' out"
    and ns: "\<not> suffix ''-'' out" and nd: "\<not> sublist ''--'' out"
  shows "sanitizeRouterName lc out = out"
proof -
  have ascii: "list_all (\<lambda>c. (of_char c :: nat) < 0x80) out"
    using chars router_char_code by (auto simp: list_all_iff)
  have "map (\<lambda>c. char_of (unicode_ToLower lc (of_char c))) out = out"
    using chars by (intro map_idI) (auto simp: list_all_iff router_char_lower)
  with ascii have lower: "strings_ToLower lc out = out"
    by (simp add: strings_ToLower_def)
  have "map sanitize_rune (map of_char out) = out"
    using chars unfolding map_map by (intro map_idI) (auto simp: list_all_iff router_char_sanitize)
  then have "map sanitize_rune (runes (strings_ToLower lc out)) = out"
    by (simp add: lower runes_ascii [OF ascii])
  then show ?thesis
    by (simp add: sanitizeRouterName_def collapse_id [OF nd] Trim_id [OF np ns])
qed

lemma sanitizeRouterName_demo: "sanitizeRouterName lc ''demo'' = ''demo''"
  by (rule sanitizeRouterName_fixed) (simp_all add: is_router_char_def sublist_code suffix_to_prefix)

text \<open>
  Claim C6.  For every input string (and whatever the Unicode case tables hold), the
  router identifier is made of the characters \<open>a-z\<close>, \<open>0-9\<close> and \<open>-\<close> only, has no leading
  hyphen, no trailing hyphen and no two hyphens in a row, and deriving the identifier of
  an identifier returns it unchanged.  The derivation is total: its collapsing loop is
  the terminating function \<open>collapse_hyphens\<close>.
\<close>

theorem sanitizeRouterName_valid_idempotent:
  "list_all is_router_char (sanitizeRouterName lc name) \<and>
   \<not> prefix ''-'' (sanitizeRouterName lc name) \<and>
   \<not> suffix ''-'' (sanitizeRouterName lc name) \<and>
   \<not> sublist ''--'' (sanitizeRouterName lc name) \<and>
   sanitizeRouterName lc (sanitizeRouterName lc name) = sanitizeRouterName lc name"
  using sanitizeRouterName_shape [of lc name]
    sanitizeRouterName_fixed [of "sanitizeRouterName lc name" lc]
  by blast

theorem sanitizeRouterName_valid_idempotent_witness:
  "list_all is_router_char (sanitizeRouterName (\<lambda>r. r) ''My  App__2!'') \<and>
   \<not> prefix ''-'' (sanitizeRouterName (\<lambda>r. r) ''My  App__2!'') \<and>
   \<not> suffix ''-'' (sanitizeRouterName (\<lambda>r. r) ''My  App__2!'') \<and>
   \<not> sublist ''--'' (sanitizeRouterName (\<lambda>r. r) ''My  App__2!'') \<and>
   sanitizeRouterName (\<lambda>r. r) (sanitizeRouterName (\<lambda>r. r) ''My  App__2!'') =
     sanitizeRouterName (\<lambda>r. r) ''My  App__2!''"
  by (rule sanitizeRouterName_valid_idempotent)

section \<open>Projects\<close>

text \<open>
  \<open>models.Project\<close>.  \<open>DeployType\<close> and \<open>ProjectStatus\<close> are string types in the source,
  with the constants below.  A Go map is an association list with distinct keys, a slice
  is a list, and \<open>None\<close> is the \<open>nil\<close> map or slice.  Times are seconds.
\<close>

type_synonym DeployType = string
type_synonym ProjectStatus = string

definition DeployTypeImage :: DeployType where "DeployTypeImage = ''image''"
definition DeployTypeCompose :: DeployType where "DeployTypeCompose = ''compose''"

definition StatusRunning :: ProjectStatus where "StatusRunning = ''running''"
definition StatusStopped :: ProjectStatus where "StatusStopped = ''stopped''"
definition StatusError :: ProjectStatus where "StatusError = ''error''"
definition StatusPending :: ProjectStatus where "StatusPending = ''pending''"

record Project =
  ID :: string
  Name :: string
  GitURL :: string
  Branch :: string
  DeployType :: DeployType
  Image :: string
  Domain :: string
  UseSubdomain :: bool
  Port :: int
  EnvVars :: "(string \<times> string) list option"
  AutoDeploy :: bool
  LastCommit :: string
  Status :: ProjectStatus
  StatusMsg :: string
  ContainerIDs :: "string list option"
  CreatedAt :: nat
  UpdatedAt :: nat

definition GetEffectiveDomain :: "Project \<Rightarrow> string \<Rightarrow> string" where
  "GetEffectiveDomain p baseDomain =
     (if Domain p \<noteq> [] then Domain p
      else if UseSubdomain p \<and> baseDomain \<noteq> [] then Name p @ ''.'' @ baseDomain
      else [])"

section \<open>Traefik labels\<close>

text \<open>\<open>fmt.Sprintf("%d", n)\<close>: the decimal digits of an integer, with a sign when negative.\<close>

fun decimal :: "nat \<Rightarrow> string" where
  "decimal n =
     (if n < 10 then [char_of (48 + n)] else decimal (n div 10) @ [char_of (48 + n mod 10)])"

declare decimal.simps [simp del]

definition fmt_d :: "int \<Rightarrow> string" where
  "fmt_d i = (if i < 0 then CHR ''-'' # decimal (nat (- i)) else decimal (nat i))"

type_synonym labels = "(string \<times> string) list"

text \<open>
  The part that \<open>GenerateTraefikLabels\<close> and \<open>GenerateTraefikLabelsForCompose\<close> share word
  for word, from the map literal to the \<open>return\<close>: the label map for a router name, a
  non-empty domain and a port.  Storing a key in a Go map is \<open>AList.update\<close>.
\<close>

definition isLocal :: "string \<Rightarrow> bool" where
  "isLocal domain \<longleftrightarrow> strings_HasSuffix domain ''.localhost'' \<or> domain = ''localhost''"

definition routerLabels :: "string \<Rightarrow> string \<Rightarrow> int \<Rightarrow> labels" where
  "routerLabels routerName domain port =
     (let labels = AList.update ''traefik.enable'' ''true'' [];
          labels = AList.update (''traefik.http.services.'' @ routerName @ ''.loadbalancer.server.port'')
                     (fmt_d port) labels;
          labels = AList.update ''traefik.docker.network'' ''slimdeploy'' labels
      in if isLocal domain then
           (let labels = AList.update (''traefik.http.routers.'' @ routerName @ ''.rule'')
                           (''Host(`'' @ domain @ ''`)'') labels;
                labels = AList.update (''traefik.http.routers.'' @ routerName @ ''.entrypoints'')
                           ''web'' labels
            in labels)
         else
           (let labels = AList.update (''traefik.http.routers.'' @ routerName @ ''-http.rule'')
                           (''Host(`'' @ domain @ ''`)'') labels;
                labels = AList.update (''traefik.http.routers.'' @ routerName @ ''-http.entrypoints'')
                           ''web'' labels;
                labels = AList.update (''traefik.http.routers.'' @ routerName @ ''-http.middlewares'')
                           ''redirect-to-https@docker'' labels;
                labels = AList.update (''traefik.http.routers.'' @ routerName @ ''.rule'')
                           (''Host(`'' @ domain @ ''`)'') labels;
                labels = AList.update (''traefik.http.routers.'' @ routerName @ ''.entrypoints'')
                           ''websecure'' labels;
                labels = AList.update (''traefik.http.routers.'' @ routerName @ ''.tls.certresolver'')
                           ''letsencrypt'' labels
            in labels))"

definition GenerateTraefikLabels :: "(nat \<Rightarrow> nat) \<Rightarrow> Project \<Rightarrow> string \<Rightarrow> labels" where
  "GenerateTraefikLabels lc project baseDomain =
     (let routerName = sanitizeRouterName lc (Name project);
          domain = GetEffectiveDomain project baseDomain
      in if domain = [] then []
         else (let port = (if Port project = 0 then 80 else Port project)
               in routerLabels routerName domain port))"

definition GenerateTraefikLabelsForCompose ::
    "(nat \<Rightarrow> nat) \<Rightarrow> Project \<Rightarrow> string \<Rightarrow> string \<Rightarrow> labels" where
  "GenerateTraefikLabelsForCompose lc project baseDomain serviceName =
     (let routerName = sanitizeRouterName lc (Name project @ ''-'' @ serviceName);
          domain = GetEffectiveDomain project baseDomain
      in if domain = [] then []
         else (let port = (if Port project = 0 then 80 else Port project)
               in routerLabels routerName domain port))"

text \<open>
  What a label set defines for the proxy: the label \<open>traefik.http.routers.<name>.<option>\<close>
  configures the option \<open><option>\<close> of the router \<open><name>\<close>; a router name holds no dot.
  A TLS label is one whose option starts with \<open>tls\<close>.
\<close>

definition router_of_key :: "string \<Rightarrow> string option" where
  "router_of_key k =
     (if prefix ''traefik.http.routers.'' k
      then Some (takeWhile (\<lambda>c. c \<noteq> CHR ''.'') (drop 21 k)) else None)"

definition routers :: "labels \<Rightarrow> string list" where
  "routers ls = remdups (List.map_filter router_of_key (map fst ls))"

definition router_option :: "string \<Rightarrow> string option" where
  "router_option k =
     (if prefix ''traefik.http.routers.'' k
      then Some (drop 1 (dropWhile (\<lambda>c. c \<noteq> CHR ''.'') (drop 21 k))) else None)"

definition is_tls_key :: "string \<Rightarrow> bool" where
  "is_tls_key k \<longleftrightarrow> (case router_option k of Some opt \<Rightarrow> prefix ''tls'' opt | None \<Rightarrow> False)"

text \<open>The project of the first end-to-end scenario of the specification.\<close>

definition demo :: Project where
  "demo = \<lparr>ID = ''p1'', Name = ''demo'', GitURL = [], Branch = [], DeployType = DeployTypeImage,
     Image = ''nginx:alpine'', Domain = [], UseSubdomain = True, Port = 80, EnvVars = None,
     AutoDeploy = False, LastCommit = [], Status = StatusPending, StatusMsg = [],
     ContainerIDs = None, CreatedAt = 0, UpdatedAt = 0\<rparr>"

subsection \<open>Effective domain and routers\<close>

text \<open>
  Claim C7.  The explicit domain wins when it is not empty; otherwise the effective domain
  is \<open><name>.<baseDomain>\<close> when derive-subdomain is set and the base domain is not empty;
  otherwise it is empty.  With an empty effective domain the label synthesizer (either
  variant) returns the empty label set.
\<close>

theorem GetEffectiveDomain_resolution:
  "(Domain p \<noteq> [] \<longrightarrow> GetEffectiveDomain p bd = Domain p) \<and>
   (Domain p = [] \<and> UseSubdomain p \<and> bd \<noteq> [] \<longrightarrow> GetEffectiveDomain p bd = Name p @ ''.'' @ bd) \<and>
   (Domain p = [] \<and> \<not> (UseSubdomain p \<and> bd \<noteq> []) \<longrightarrow> GetEffectiveDomain p bd = []) \<and>
   (GetEffectiveDomain p bd = [] \<longrightarrow>
      GenerateTraefikLabels lc p bd = [] \<and> GenerateTraefikLabelsForCompose lc p bd svc = [])"
  by (simp add: GetEffectiveDomain_def GenerateTraefikLabels_def GenerateTraefikLabelsForCompose_def)

theorem GetEffectiveDomain_resolution_witness:
  "GetEffectiveDomain (demo\<lparr>Domain := ''app.example.org''\<rparr>) ''example.com'' = ''app.example.org'' \<and>
   GetEffectiveDomain demo ''example.com'' = ''demo.example.com'' \<and>
   GetEffectiveDomain (demo\<lparr>UseSubdomain := False\<rparr>) ''example.com'' = [] \<and>
   GenerateTraefikLabels (\<lambda>r. r) (demo\<lparr>UseSubdomain := False\<rparr>) ''example.com'' = []"
  using GetEffectiveDomain_resolution [of "demo\<lparr>Domain := ''app.example.org''\<rparr>" "''example.com''"]
    GetEffectiveDomain_resolution [of demo "''example.com''"]
    GetEffectiveDomain_resolution [of "demo\<lparr>UseSubdomain := False\<rparr>" "''example.com''" "\<lambda>r. r"]
  by (simp add: demo_def)

lemma router_char_no_dot: "list_all is_router_char s \<Longrightarrow> CHR ''.'' \<notin> set s"
  by (auto simp: list_all_iff is_router_char_def)

lemma takeWhile_router: "list_all is_router_char rn \<Longrightarrow>
   takeWhile (\<lambda>c. c \<noteq> CHR ''.'') (rn @ CHR ''.'' # rest) = rn"
  using router_char_no_dot [of rn] by (subst takeWhile_append2) auto

lemma takeWhile_router_http: "list_all is_router_char rn \<Longrightarrow>
   takeWhile (\<lambda>c. c \<noteq> CHR ''.'')
     (rn @ CHR ''-'' # CHR ''h'' # CHR ''t'' # CHR ''t'' # CHR ''p'' # CHR ''.'' # rest) = rn @ ''-http''"
proof -
  assume "list_all is_router_char rn"
  then have "list_all is_router_char (rn @ ''-http'')"
    by (simp add: is_router_char_def)
  from takeWhile_router [OF this, of rest] show ?thesis by simp
qed

lemma dropWhile_router: "list_all is_router_char rn \<Longrightarrow>
   dropWhile (\<lambda>c. c \<noteq> CHR ''.'') (rn @ CHR ''.'' # rest) = CHR ''.'' # rest"
  using router_char_no_dot [of rn] by (subst dropWhile_append2) auto

lemma routerLabels_local:
  "isLocal d \<Longrightarrow> routerLabels rn d port =
     [(''traefik.enable'', ''true''),
      (''traefik.http.services.'' @ rn @ ''.loadbalancer.server.port'', fmt_d port),
      (''traefik.docker.network'', ''slimdeploy''),
      (''traefik.http.routers.'' @ rn @ ''.rule'', ''Host(`'' @ d @ ''`)''),
      (''traefik.http.routers.'' @ rn @ ''.entrypoints'', ''web'')]"
  by (simp add: routerLabels_def)

lemma routerLabels_public:
  "\<not> isLocal d \<Longrightarrow> routerLabels rn d port =
     [(''traefik.enable'', ''true''),
      (''traefik.http.services.'' @ rn @ ''.loadbalancer.server.port'', fmt_d port),
      (''traefik.docker.network'', ''slimdeploy''),
      (''traefik.http.routers.'' @ rn @ ''-http.rule'', ''Host(`'' @ d @ ''`)''),
      (''traefik.http.routers.'' @ rn @ ''-http.entrypoints'', ''web''),
      (''traefik.http.routers.'' @ rn @ ''-http.middlewares'', ''redirect-to-https@docker''),
      (''traefik.http.routers.'' @ rn @ ''.rule'', ''Host(`'' @ d @ ''`)''),
      (''traefik.http.routers.'' @ rn @ ''.entrypoints'', ''websecure''),
      (''traefik.http.routers.'' @ rn @ ''.tls.certresolver'', ''letsencrypt'')]"
  by (simp add: routerLabels_def)

lemma fmt_d_80: "fmt_d 80 = ''80''"
  by code_simp

text \<open>
  The first end-to-end scenario: the labels of project \<open>demo\<close> under the base domain
  \<open>example.com\<close>, whatever the case tables.
\<close>

lemma scenario_1:
  "GenerateTraefikLabels lc demo ''example.com'' =
     [(''traefik.enable'', ''true''),
      (''traefik.http.services.demo.loadbalancer.server.port'', ''80''),
      (''traefik.docker.network'', ''slimdeploy''),
      (''traefik.http.routers.demo-http.rule'', ''Host(`demo.example.com`)''),
      (''traefik.http.routers.demo-http.entrypoints'', ''web''),
      (''traefik.http.routers.demo-http.middlewares'', ''redirect-to-https@docker''),
      (''traefik.http.routers.demo.rule'', ''Host(`demo.example.com`)''),
      (''traefik.http.routers.demo.entrypoints'', ''websecure''),
      (''traefik.http.routers.demo.tls.certresolver'', ''letsencrypt'')]"
proof -
  have "\<not> isLocal ''demo.example.com''"
    by (simp add: isLocal_def strings_HasSuffix_def suffix_to_prefix)
  from routerLabels_public [OF this, of "''demo''" 80] show ?thesis
    by (simp add: GenerateTraefikLabels_def GetEffectiveDomain_def demo_def
        sanitizeRouterName_demo fmt_d_80)
qed

text \<open>
  Claim C8.  For a project whose effective domain is not empty: when the domain ends in
  \<open>.localhost\<close> or is \<open>localhost\<close>, the label set defines exactly one router (the one named
  by the router identifier), whose entrypoint is \<open>web\<close>, and no label is a TLS label;
  for any other domain it defines exactly two routers: the \<open>-http\<close> router on the \<open>web\<close>
  entrypoint with the redirect-to-HTTPS middleware, and the router on \<open>websecure\<close> with the
  \<open>letsencrypt\<close> certificate resolver.
\<close>

theorem GenerateTraefikLabels_routers:
  "GetEffectiveDomain p bd \<noteq> [] \<Longrightarrow>
   (let d = GetEffectiveDomain p bd;
        rn = sanitizeRouterName lc (Name p);
        L = GenerateTraefikLabels lc p bd
    in (isLocal d \<longrightarrow>
          routers L = [rn] \<and>
          map_of L (''traefik.http.routers.'' @ rn @ ''.entrypoints'') = Some ''web'' \<and>
          \<not> list_ex is_tls_key (map fst L)) \<and>
       (\<not> isLocal d \<longrightarrow>
          routers L = [rn @ ''-http'', rn] \<and> length (routers L) = 2 \<and>
          map_of L (''traefik.http.routers.'' @ rn @ ''-http.entrypoints'') = Some ''web'' \<and>
          map_of L (''traefik.http.routers.'' @ rn @ ''-http.middlewares'') =
            Some ''redirect-to-https@docker'' \<and>
          map_of L (''traefik.http.routers.'' @ rn @ ''.entrypoints'') = Some ''websecure'' \<and>
          map_of L (''traefik.http.routers.'' @ rn @ ''.tls.certresolver'') = Some ''letsencrypt''))"
proof -
  assume dom: "GetEffectiveDomain p bd \<noteq> []"
  define d where "d = GetEffectiveDomain p bd"
  define rn where "rn = sanitizeRouterName lc (Name p)"
  define port where "port = (if Port p = 0 then 80 else Port p)"
  have rc: "list_all is_router_char rn"
    unfolding rn_def using sanitizeRouterName_shape by simp
  have L: "GenerateTraefikLabels lc p bd = routerLabels rn d port"
    using dom by (simp add: GenerateTraefikLabels_def d_def rn_def port_def)
  note tw = takeWhile_router [OF rc] takeWhile_router_http [OF rc] dropWhile_router [OF rc]
  have local: "routers (routerLabels rn d port) = [rn] \<and>
      map_of (routerLabels rn d port) (''traefik.http.routers.'' @ rn @ ''.entrypoints'') = Some ''web'' \<and>
      \<not> list_ex is_tls_key (map fst (routerLabels rn d port))" if "isLocal d"
    by (simp add: routerLabels_local [OF that] routers_def List.map_filter_simps
        router_of_key_def is_tls_key_def router_option_def tw)
  have public: "routers (routerLabels rn d port) = [rn @ ''-http'', rn] \<and>
      length (routers (routerLabels rn d port)) = 2 \<and>
      map_of (routerLabels rn d port) (''traefik.http.routers.'' @ rn @ ''-http.entrypoints'') = Some ''web'' \<and>
      map_of (routerLabels rn d port) (''traefik.http.routers.'' @ rn @ ''-http.middlewares'') =
          Some ''redirect-to-https@docker'' \<and>
      map_of (routerLabels rn d port) (''traefik.http.routers.'' @ rn @ ''.entrypoints'') = Some ''websecure'' \<and>
      map_of (routerLabels rn d port) (''traefik.http.routers.'' @ rn @ ''.tls.certresolver'') = Some ''letsencrypt''"
    if "\<not> isLocal d"
    by (simp add: routerLabels_public [OF that] routers_def List.map_filter_simps
        router_of_key_def tw)
  show ?thesis
    using local public unfolding Let_def L d_def [symmetric] rn_def [symmetric] by blast
qed

theorem GenerateTraefikLabels_routers_witness:
  "routers (GenerateTraefikLabels (\<lambda>r. r) (demo\<lparr>Domain := ''app.localhost''\<rparr>) ''example.com'')
     = [''demo''] \<and>
   map_of (GenerateTraefikLabels (\<lambda>r. r) (demo\<lparr>Domain := ''app.localhost''\<rparr>) ''example.com'')
     ''traefik.http.routers.demo.entrypoints'' = Some ''web'' \<and>
   routers (GenerateTraefikLabels (\<lambda>r. r) demo ''example.com'') = [''demo-http'', ''demo''] \<and>
   map_of (GenerateTraefikLabels (\<lambda>r. r) demo ''example.com'')
     ''traefik.http.routers.demo.tls.certresolver'' = Some ''letsencrypt''"
  using GenerateTraefikLabels_routers [of "demo\<lparr>Domain := ''app.localhost''\<rparr>" "''example.com''" "\<lambda>r. r"]
    GenerateTraefikLabels_routers [of demo "''example.com''" "\<lambda>r. r"]
  by (simp add: demo_def GetEffectiveDomain_def isLocal_def strings_HasSuffix_def
      suffix_to_prefix sanitizeRouterName_demo Let_def)

section \<open>Errors\<close>

text \<open>
  A Go \<open>error\<close> is a value with a message.  \<open>fmt.Errorf("...: %w", err)\<close> makes the error
  whose message is the prefix followed by the message of \<open>err\<close>.  \<open>ErrNoRows\<close> is the
  sentinel \<open>sql.ErrNoRows\<close>, which the source compares by identity.  The message of an
  \<open>encoding/json\<close> error is not modelled: \<open>json_error\<close> stands for all of them.
\<close>

datatype error = Err string | ErrNoRows

fun Error :: "error \<Rightarrow> string" where
  "Error (Err msg) = msg"
| "Error ErrNoRows = ''sql: no rows in result set''"

definition Errorf_w :: "string \<Rightarrow> error \<Rightarrow> error" where
  "Errorf_w pre err = Err (pre @ Error err)"

definition json_error :: error where
  "json_error = Err ''json: cannot unmarshal''"

section \<open>The JSON text forms (encoding/json on string slices and string maps)\<close>

subsection \<open>Encoding\<close>

definition hex_char :: "nat \<Rightarrow> char" where
  "hex_char n = ''0123456789abcdef'' ! n"

text \<open>
  \<open>htmlSafeSet\<close>: the ASCII bytes \<open>json.Marshal\<close> copies as they are, which is every byte
  from the space on except the double quote, \<open>&\<close>, \<open><\<close>, \<open>>\<close> and the backslash.
\<close>

definition htmlSafe :: "nat \<Rightarrow> bool" where
  "htmlSafe b \<longleftrightarrow> 0x20 \<le> b \<and> b < 0x80 \<and> b \<noteq> 0x22 \<and> b \<noteq> 0x26 \<and> b \<noteq> 0x3C \<and> b \<noteq> 0x3E \<and> b \<noteq> 0x5C"

text \<open>
  The body of \<open>appendString\<close> (Go 1.23, HTML escaping on): what stands between the quotes.
  A byte that starts no well-formed UTF-8 sequence is written as the escape of \<open>U+FFFD\<close>; the runes
  \<open>U+2028\<close> and \<open>U+2029\<close> are escaped; every other rune is copied.
\<close>

fun json_escape :: "string \<Rightarrow> string" where
  "json_escape [] = []"
| "json_escape (c # cs) =
     (let b = (of_char c :: nat) in
      if b < 0x80 then
        (if htmlSafe b then [c]
         else if b = 0x5C \<or> b = 0x22 then [CHR 0x5C, c]
         else if b = 0x08 then [CHR 0x5C, CHR ''b'']
         else if b = 0x0C then [CHR 0x5C, CHR ''f'']
         else if b = 0x0A then [CHR 0x5C, CHR ''n'']
         else if b = 0x0D then [CHR 0x5C, CHR ''r'']
         else if b = 0x09 then [CHR 0x5C, CHR ''t'']
         else [CHR 0x5C, CHR ''u'', CHR ''0'', CHR ''0'', hex_char (b div 16), hex_char (b mod 16)])
        @ json_escape cs
      else
        (let r = fst (utf8_DecodeRune (c # cs)); size = snd (utf8_DecodeRune (c # cs)) in
         if r = RuneError \<and> size = 1 then
           [CHR 0x5C, CHR ''u'', CHR ''f'', CHR ''f'', CHR ''f'', CHR ''d''] @ json_escape cs
         else if r = 0x2028 \<or> r = 0x2029 then
           [CHR 0x5C, CHR ''u'', CHR ''2'', CHR ''0'', CHR ''2'', hex_char (r mod 16)]
             @ json_escape (drop (size - 1) cs)
         else take size (c # cs) @ json_escape (drop (size - 1) cs)))"

definition json_quote :: "string \<Rightarrow> string" where
  "json_quote s = CHR 0x22 # json_escape s @ [CHR 0x22]"

text \<open>\<open>strings.Join\<close>.\<close>

fun join :: "string \<Rightarrow> string list \<Rightarrow> string" where
  "join sep [] = []"
| "join sep [x] = x"
| "join sep (x # y # ys) = x @ sep @ join sep (y # ys)"

text \<open>
  \<open>json.Marshal\<close> of a non-nil \<open>[]string\<close> and of a non-nil \<open>map[string]string\<close>; neither
  fails.  The keys of a map are written in the byte order of \<open>strings.Compare\<close>.
\<close>

definition json_Marshal_strings :: "string list \<Rightarrow> string" where
  "json_Marshal_strings xs = ''['' @ join '','' (map json_quote xs) @ '']''"

definition json_member :: "string \<times> string \<Rightarrow> string" where
  "json_member kv = json_quote (fst kv) @ '':'' @ json_quote (snd kv)"

definition json_Marshal_map :: "(string \<times> string) list \<Rightarrow> string" where
  "json_Marshal_map m = ''{'' @ join '','' (map json_member (sort_key fst m)) @ ''}''"

subsection \<open>Decoding\<close>

definition hexval :: "char \<Rightarrow> nat option" where
  "hexval c =
     (let b = (of_char c :: nat) in
      if 0x30 \<le> b \<and> b \<le> 0x39 then Some (b - 0x30)
      else if 0x61 \<le> b \<and> b \<le> 0x66 then Some (b - 0x61 + 10)
      else if 0x41 \<le> b \<and> b \<le> 0x46 then Some (b - 0x41 + 10)
      else None)"

text \<open>\<open>getu4\<close>: the number written by a leading escape (backslash, \<open>u\<close>, four hex digits), if the text starts with one.\<close>

fun getu4 :: "string \<Rightarrow> nat option" where
  "getu4 (c0 # c1 # h1 # h2 # h3 # h4 # rest) =
     (if c0 = CHR 0x5C \<and> c1 = CHR ''u'' then
        (case (hexval h1, hexval h2, hexval h3, hexval h4) of
           (Some a, Some b, Some c, Some d) \<Rightarrow> Some (a * 4096 + b * 256 + c * 16 + d)
         | _ \<Rightarrow> None)
      else None)"
| "getu4 _ = None"

text \<open>
  A \<open>u\<close> escape at the head of the text: the rune it denotes and the text after it.  A
  high surrogate followed by the escape of a low surrogate is one rune and both escapes
  are consumed; any other surrogate is \<open>U+FFFD\<close>.
\<close>

definition unquote_u :: "string \<Rightarrow> (nat \<times> string) option" where
  "unquote_u s =
     (case getu4 s of
        None \<Rightarrow> None
      | Some rr \<Rightarrow>
          (let rest = drop 6 s in
           if 0xD800 \<le> rr \<and> rr < 0xE000 then
             (case getu4 rest of
                Some rr1 \<Rightarrow>
                  if rr < 0xDC00 \<and> 0xDC00 \<le> rr1 \<and> rr1 < 0xE000
                  then Some ((rr - 0xD800) * 1024 + (rr1 - 0xDC00) + 0x10000, drop 6 rest)
                  else Some (RuneError, rest)
              | None \<Rightarrow> Some (RuneError, rest))
           else Some (rr, rest)))"

lemma unquote_u_shorter: "unquote_u s = Some (r, rest) \<Longrightarrow> length rest < length s"
  by (cases s rule: getu4.cases)
    (auto simp: unquote_u_def Let_def split: option.splits if_splits)

definition prepend :: "string \<Rightarrow> (string \<times> string) option \<Rightarrow> (string \<times> string) option" where
  "prepend pre res = map_option (\<lambda>(t, rest). (pre @ t, rest)) res"

text \<open>
  A string literal, read from just after its opening quote (the scanner and \<open>unquote\<close> in
  one pass): the decoded string and the text after the closing quote, or \<open>None\<close> when the
  literal is malformed.  Raw bytes that are not well-formed UTF-8 are coerced to \<open>U+FFFD\<close>.
\<close>

function unquote :: "string \<Rightarrow> (string \<times> string) option" where
  "unquote [] = None"
| "unquote (c # cs) =
     (let b = (of_char c :: nat) in
      if b = 0x22 then Some ([], cs)
      else if b = 0x5C then
        (case cs of
           [] \<Rightarrow> None
         | e # rest \<Rightarrow>
             if e = CHR 0x22 \<or> e = CHR 0x5C \<or> e = CHR ''/'' then prepend [e] (unquote rest)
             else if e = CHR ''b'' then prepend [CHR 0x08] (unquote rest)
             else if e = CHR ''f'' then prepend [CHR 0x0C] (unquote rest)
             else if e = CHR ''n'' then prepend [CHR 0x0A] (unquote rest)
             else if e = CHR ''r'' then prepend [CHR 0x0D] (unquote rest)
             else if e = CHR ''t'' then prepend [CHR 0x09] (unquote rest)
             else if e = CHR ''u'' then
               (case unquote_u (c # cs) of
                  None \<Rightarrow> None
                | Some (rr, rest') \<Rightarrow> prepend (utf8_EncodeRune rr) (unquote rest'))
             else None)
      else if b < 0x20 then None
      else if b < 0x80 then prepend [c] (unquote cs)
      else prepend (utf8_EncodeRune (fst (utf8_DecodeRune (c # cs))))
             (unquote (drop (snd (utf8_DecodeRune (c # cs)) - 1) cs)))"
  by pat_completeness auto
termination
  by (relation "measure length") (auto dest: unquote_u_shorter)

definition is_ws :: "char \<Rightarrow> bool" where
  "is_ws c \<longleftrightarrow> c = CHR '' '' \<or> c = CHR 0x09 \<or> c = CHR 0x0D \<or> c = CHR 0x0A"

definition skip_ws :: "string \<Rightarrow> string" where
  "skip_ws s = dropWhile is_ws s"

text \<open>
  A value that fits a Go \<open>string\<close>: a string literal, or \<open>null\<close>, which leaves the zero
  value.  Any other value is a type error or a syntax error; both make \<open>Unmarshal\<close> fail.
\<close>

definition parse_elem :: "string \<Rightarrow> (string \<times> string) option" where
  "parse_elem s =
     (case s of
        c # rest \<Rightarrow>
          if c = CHR 0x22 then unquote rest
          else if prefix ''null'' s then Some ([], drop 4 s)
          else None
      | [] \<Rightarrow> None)"

lemma skip_ws_length: "length (skip_ws s) \<le> length s"
  by (simp add: skip_ws_def length_dropWhile_le)

lemma prepend_Some: "prepend pre res = Some (t, rest) \<Longrightarrow>
   \<exists>t'. res = Some (t', rest) \<and> t = pre @ t'"
  by (cases res) (auto simp: prepend_def)

lemma unquote_shorter: "unquote s = Some (t, rest) \<Longrightarrow> length rest < length s"
proof (induction "length s" arbitrary: s t rule: less_induct)
  case less
  show ?case
  proof (cases s)
    case Nil
    with less(2) show ?thesis by simp
  next
    case (Cons c cs)
    have step: "length rest < length s"
      if "prepend pre (unquote s') = Some (t, rest)" and "length s' < length s" for pre s'
    proof -
      from prepend_Some [OF that(1)] obtain t' where "unquote s' = Some (t', rest)" by blast
      from less(1) [OF that(2) this] that(2) show ?thesis by simp
    qed
    have len1: "length cs < length s" using Cons by simp
    have len2: "length (drop n cs) < length s" for n using Cons by simp
    show ?thesis
    proof (cases "(of_char c :: nat) = 0x22")
      case True
      with less(2) Cons show ?thesis by simp
    next
      case q: False
      show ?thesis
      proof (cases "(of_char c :: nat) = 0x5C")
        case bs: True
        show ?thesis
        proof (cases cs)
          case Nil
          with less(2) q bs Cons show ?thesis by simp
        next
          case c2: (Cons e rest')
          have len3: "length rest' < length s" using Cons c2 by simp
          show ?thesis
          proof (cases "e = CHR ''u''")
            case True
            with less(2) q bs Cons c2 obtain rr r' where
              u: "unquote_u (c # cs) = Some (rr, r')"
              and p: "prepend (utf8_EncodeRune rr) (unquote r') = Some (t, rest)"
              by (auto split: option.splits)
            from unquote_u_shorter [OF u] Cons have "length r' < length s" by simp
            from step [OF p this] show ?thesis .
          next
            case False
            with less(2) q bs Cons c2 obtain pre where
              "prepend pre (unquote rest') = Some (t, rest)"
              by (auto split: if_splits)
            from step [OF this len3] show ?thesis .
          qed
        qed
      next
        case b: False
        show ?thesis
        proof (cases "(of_char c :: nat) < 0x80")
          case True
          with less(2) q b Cons have "prepend [c] (unquote cs) = Some (t, rest)"
            by (auto simp: Let_def split: if_splits)
          from step [OF this len1] show ?thesis .
        next
          case False
          with less(2) q b Cons have "prepend (utf8_EncodeRune (fst (utf8_DecodeRune (c # cs))))
             (unquote (drop (snd (utf8_DecodeRune (c # cs)) - 1) cs)) = Some (t, rest)"
            by (auto simp: Let_def split: if_splits)
          from step [OF this len2] show ?thesis .
        qed
      qed
    qed
  qed
qed

lemma parse_elem_shorter: "parse_elem s = Some (x, rest) \<Longrightarrow> length rest < length s"
  by (cases s) (auto simp: parse_elem_def split: if_splits dest: unquote_shorter)

text \<open>
  The elements of an array after its opening bracket (or after a comma), up to the closing
  bracket: each is a value that fits a string.
\<close>

function parse_elems :: "string \<Rightarrow> (string list \<times> string) option" where
  "parse_elems s =
     (case parse_elem (skip_ws s) of
        None \<Rightarrow> None
      | Some (x, rest) \<Rightarrow>
          (case skip_ws rest of
             c # rest' \<Rightarrow>
               if c = CHR '','' then
                 map_option (\<lambda>(xs, r). (x # xs, r)) (parse_elems rest')
               else if c = CHR '']'' then Some ([x], rest')
               else None
           | [] \<Rightarrow> None))"
  by pat_completeness auto
termination
proof (relation "measure length", goal_cases)
  case 1
  then show ?case by simp
next
  case (2 s x2 x rest c rest')
  have "length rest < length (skip_ws s)"
    using 2 parse_elem_shorter [of "skip_ws s" x rest] by simp
  moreover have "length (skip_ws rest) \<le> length rest" by (rule skip_ws_length)
  moreover have "length (skip_ws s) \<le> length s" by (rule skip_ws_length)
  ultimately show ?case using 2 by simp
qed

declare parse_elems.simps [simp del]


text \<open>
  The members of an object after its opening brace (or after a comma), up to the closing
  brace: a string literal as the key, a colon, and a value that fits a string.
\<close>

definition parse_member :: "string \<Rightarrow> ((string \<times> string) \<times> string) option" where
  "parse_member s =
     (case skip_ws s of
        q # rest \<Rightarrow>
          if q = CHR 0x22 then
            (case unquote rest of
               None \<Rightarrow> None
             | Some (k, rest1) \<Rightarrow>
                 (case skip_ws rest1 of
                    c # rest2 \<Rightarrow>
                      if c = CHR '':'' then
                        (case parse_elem (skip_ws rest2) of
                           None \<Rightarrow> None
                         | Some (v, rest3) \<Rightarrow> Some ((k, v), rest3))
                      else None
                  | [] \<Rightarrow> None))
          else None
      | [] \<Rightarrow> None)"

lemma parse_member_shorter: "parse_member s = Some (kv, rest) \<Longrightarrow> length rest < length s"
proof -
  assume a: "parse_member s = Some (kv, rest)"
  then obtain q r0 where s0: "skip_ws s = q # r0" and q: "q = CHR 0x22"
    by (auto simp: parse_member_def split: list.splits if_splits)
  from a s0 q obtain k r1 where u: "unquote r0 = Some (k, r1)"
    by (auto simp: parse_member_def split: option.splits)
  from a s0 q u obtain c r2 where s1: "skip_ws r1 = c # r2" and c: "c = CHR '':''"
    by (auto simp: parse_member_def split: list.splits if_splits)
  from a s0 q u s1 c obtain v where e: "parse_elem (skip_ws r2) = Some (v, rest)"
    by (auto simp: parse_member_def split: option.splits)
  have "length rest < length (skip_ws r2)" using parse_elem_shorter [OF e] .
  also have "\<dots> \<le> length r2" by (rule skip_ws_length)
  also have "\<dots> < length (skip_ws r1)" using s1 by simp
  also have "\<dots> \<le> length r1" by (rule skip_ws_length)
  also have "\<dots> < length r0" using unquote_shorter [OF u] .
  also have "\<dots> < length (skip_ws s)" using s0 by simp
  also have "\<dots> \<le> length s" by (rule skip_ws_length)
  finally show ?thesis .
qed

function parse_members :: "string \<Rightarrow> ((string \<times> string) list \<times> string) option" where
  "parse_members s =
     (case parse_member s of
        None \<Rightarrow> None
      | Some (kv, rest) \<Rightarrow>
          (case skip_ws rest of
             c # rest' \<Rightarrow>
               if c = CHR '','' then
                 map_option (\<lambda>(kvs, r). (kv # kvs, r)) (parse_members rest')
               else if c = CHR ''}'' then Some ([kv], rest')
               else None
           | [] \<Rightarrow> None))"
  by pat_completeness auto
termination
proof (relation "measure length", goal_cases)
  case 1
  then show ?case by simp
next
  case (2 s x2 kv rest c rest')
  have "length rest < length s"
    using 2 parse_member_shorter [of s kv rest] by simp
  moreover have "length (skip_ws rest) \<le> length rest" by (rule skip_ws_length)
  ultimately show ?case using 2 by simp
qed

declare parse_members.simps [simp del]

text \<open>
  \<open>json.Unmarshal(data, &xs)\<close> for \<open>xs\<close> of type \<open>[]string\<close>: the new value of \<open>xs\<close>, or the
  error.  \<open>null\<close> gives the nil slice.  (A \<open>null\<close> element leaves the zero value, as it does
  in a destination without spare capacity.)
\<close>

definition json_Unmarshal_strings :: "string \<Rightarrow> error + string list option" where
  "json_Unmarshal_strings data =
     (let s = skip_ws data in
      if prefix ''null'' s then
        (if skip_ws (drop 4 s) = [] then Inr None else Inl json_error)
      else
        (case s of
           c # rest \<Rightarrow>
             if c = CHR ''['' then
               (case skip_ws rest of
                  c' # rest' \<Rightarrow>
                    if c' = CHR '']'' then
                      (if skip_ws rest' = [] then Inr (Some []) else Inl json_error)
                    else
                      (case parse_elems rest of
                         Some (xs, rest'') \<Rightarrow>
                           if skip_ws rest'' = [] then Inr (Some xs) else Inl json_error
                       | None \<Rightarrow> Inl json_error)
                | [] \<Rightarrow> Inl json_error)
             else Inl json_error
         | [] \<Rightarrow> Inl json_error))"

text \<open>
  \<open>json.Unmarshal(data, &m)\<close> for \<open>m\<close> of type \<open>map[string]string\<close>, given the map \<open>m\<close> holds
  before the call: \<open>null\<close> gives the nil map; an object is stored member by member into
  the map that is there (a new one if it is nil), so earlier entries stay and a later
  member with the same key wins.
\<close>

definition store_members ::
    "(string \<times> string) list \<Rightarrow> (string \<times> string) list option \<Rightarrow> (string \<times> string) list" where
  "store_members kvs m0 =
     fold (\<lambda>kv m. AList.update (fst kv) (snd kv) m) kvs (case m0 of None \<Rightarrow> [] | Some m \<Rightarrow> m)"

definition json_Unmarshal_map ::
    "string \<Rightarrow> (string \<times> string) list option \<Rightarrow> error + (string \<times> string) list option" where
  "json_Unmarshal_map data m0 =
     (let s = skip_ws data in
      if prefix ''null'' s then
        (if skip_ws (drop 4 s) = [] then Inr None else Inl json_error)
      else
        (case s of
           c # rest \<Rightarrow>
             if c = CHR ''{'' then
               (case skip_ws rest of
                  c' # rest' \<Rightarrow>
                    if c' = CHR ''}'' then
                      (if skip_ws rest' = [] then Inr (Some (store_members [] m0))
                       else Inl json_error)
                    else
                      (case parse_members rest of
                         Some (kvs, rest'') \<Rightarrow>
                           if skip_ws rest'' = [] then Inr (Some (store_members kvs m0))
                           else Inl json_error
                       | None \<Rightarrow> Inl json_error)
                | [] \<Rightarrow> Inl json_error)
             else Inl json_error
         | [] \<Rightarrow> Inl json_error))"

subsection \<open>The text forms of a project's fields\<close>

text \<open>
  \<open>EnvVarsJSON\<close> and \<open>ContainerIDsJSON\<close>; their error branches are dead, since marshalling
  strings does not fail.  \<open>ParseEnvVars\<close> and \<open>ParseContainerIDs\<close> return the error, or the
  project with the field set (on an error every caller drops the project).
\<close>

definition EnvVarsJSON :: "Project \<Rightarrow> string" where
  "EnvVarsJSON p = (case EnvVars p of None \<Rightarrow> ''{}'' | Some m \<Rightarrow> json_Marshal_map m)"

definition ContainerIDsJSON :: "Project \<Rightarrow> string" where
  "ContainerIDsJSON p =
     (case ContainerIDs p of None \<Rightarrow> ''[]'' | Some xs \<Rightarrow> json_Marshal_strings xs)"

definition ParseEnvVars :: "Project \<Rightarrow> string \<Rightarrow> error + Project" where
  "ParseEnvVars p data =
     (if data = [] then Inr (p\<lparr>EnvVars := Some []\<rparr>)
      else (case json_Unmarshal_map data (EnvVars p) of
              Inl err \<Rightarrow> Inl err
            | Inr m \<Rightarrow> Inr (p\<lparr>EnvVars := m\<rparr>)))"

definition ParseContainerIDs :: "Project \<Rightarrow> string \<Rightarrow> error + Project" where
  "ParseContainerIDs p data =
     (if data = [] then Inr (p\<lparr>ContainerIDs := Some []\<rparr>)
      else (case json_Unmarshal_strings data of
              Inl err \<Rightarrow> Inl err
            | Inr xs \<Rightarrow> Inr (p\<lparr>ContainerIDs := xs\<rparr>)))"

section \<open>The round trip of the text forms\<close>

subsection \<open>Encoding a decoded rune\<close>

text \<open>
  A rune that \<open>utf8_DecodeRune\<close> reads from a well-formed sequence is written back by
  \<open>utf8_EncodeRune\<close> as the same bytes.  The bytes of a sequence are a lead byte and
  continuation bytes of six payload bits each.
\<close>

lemma dm2: "x < 64 \<Longrightarrow> (a * 64 + x) div 64 = a \<and> (a * 64 + x) mod 64 = (x::nat)"
  by simp

lemma dm1:
  fixes k y :: nat
  assumes "y < 64"
  shows "(k * 64 + y) div 64 = k" and "(k * 64 + y) mod 64 = y"
  using assms by simp_all

lemma dm3:
  fixes a x y :: nat
  assumes "x < 64" "y < 64"
  shows "(a * 4096 + x * 64 + y) div 4096 = a"
    and "((a * 4096 + x * 64 + y) div 64) mod 64 = x"
    and "(a * 4096 + x * 64 + y) mod 64 = y"
proof -
  define k where "k = a * 64 + x"
  have e: "a * 4096 + x * 64 + y = k * 64 + y" by (simp add: k_def)
  have d: "(a * 4096 + x * 64 + y) div 64 = k"
    unfolding e by (rule dm1(1) [OF assms(2)])
  show "((a * 4096 + x * 64 + y) div 64) mod 64 = x"
    unfolding d k_def by (rule dm1(2) [OF assms(1)])
  show "(a * 4096 + x * 64 + y) mod 64 = y"
    unfolding e by (rule dm1(2) [OF assms(2)])
  have "(a * 4096 + x * 64 + y) div 4096 = ((a * 4096 + x * 64 + y) div 64) div 64"
    by (simp add: div_mult2_eq)
  also have "\<dots> = a"
    unfolding d k_def by (rule dm1(1) [OF assms(1)])
  finally show "(a * 4096 + x * 64 + y) div 4096 = a" .
qed

lemma dm4:
  fixes a x y z :: nat
  assumes "x < 64" "y < 64" "z < 64"
  shows "(a * 262144 + x * 4096 + y * 64 + z) div 262144 = a"
    and "((a * 262144 + x * 4096 + y * 64 + z) div 4096) mod 64 = x"
    and "((a * 262144 + x * 4096 + y * 64 + z) div 64) mod 64 = y"
    and "(a * 262144 + x * 4096 + y * 64 + z) mod 64 = z"
proof -
  define k where "k = a * 64 + x"
  have e: "a * 262144 + x * 4096 + y * 64 + z = k * 4096 + y * 64 + z" by (simp add: k_def)
  have d: "(a * 262144 + x * 4096 + y * 64 + z) div 4096 = k"
    unfolding e by (rule dm3(1) [OF assms(2,3)])
  show "((a * 262144 + x * 4096 + y * 64 + z) div 4096) mod 64 = x"
    unfolding d k_def by (rule dm1(2) [OF assms(1)])
  show "((a * 262144 + x * 4096 + y * 64 + z) div 64) mod 64 = y"
    unfolding e by (rule dm3(2) [OF assms(2,3)])
  show "(a * 262144 + x * 4096 + y * 64 + z) mod 64 = z"
    unfolding e by (rule dm3(3) [OF assms(2,3)])
  have "(a * 262144 + x * 4096 + y * 64 + z) div 262144 =
      ((a * 262144 + x * 4096 + y * 64 + z) div 4096) div 64"
    by (simp add: div_mult2_eq)
  also have "\<dots> = a"
    unfolding d k_def by (rule dm1(1) [OF assms(1)])
  finally show "(a * 262144 + x * 4096 + y * 64 + z) div 262144 = a" .
qed

lemma enc2:
  fixes a x :: nat
  assumes "2 \<le> a" "a < 32" "x < 64"
  shows "utf8_EncodeRune (a * 64 + x) = [char_of (0xC0 + a), char_of (0x80 + x)]"
proof -
  have "0x80 \<le> a * 64 + x" "a * 64 + x < 0x800"
    using assms by linarith+
  with dm1 [OF assms(3), of a] show ?thesis
    unfolding utf8_EncodeRune_def by simp
qed

lemma enc3:
  fixes a x y :: nat
  assumes "a < 16" "x < 64" "y < 64" "a = 0 \<Longrightarrow> 32 \<le> x" "a = 13 \<Longrightarrow> x < 32"
  shows "utf8_EncodeRune (a * 4096 + x * 64 + y) =
     [char_of (0xE0 + a), char_of (0x80 + x), char_of (0x80 + y)]"
proof -
  define r where "r = a * 4096 + x * 64 + y"
  have lo: "0x800 \<le> r"
    using assms unfolding r_def by (cases "a = 0") linarith+
  have hi: "r < 0x10000"
    using assms unfolding r_def by linarith
  have ns: "\<not> (0xD800 \<le> r \<and> r \<le> 0xDFFF)"
  proof (cases "a = 13")
    case True
    with assms show ?thesis unfolding r_def by linarith
  next
    case False
    then have "a \<le> 12 \<or> 14 \<le> a" by linarith
    with assms show ?thesis unfolding r_def by linarith
  qed
  from lo hi ns dm3 [OF assms(2,3), of a] show ?thesis
    unfolding utf8_EncodeRune_def r_def by simp
qed

lemma enc4:
  fixes a x y z :: nat
  assumes "a < 5" "x < 64" "y < 64" "z < 64" "a = 0 \<Longrightarrow> 16 \<le> x" "a = 4 \<Longrightarrow> x < 16"
  shows "utf8_EncodeRune (a * 262144 + x * 4096 + y * 64 + z) =
     [char_of (0xF0 + a), char_of (0x80 + x), char_of (0x80 + y), char_of (0x80 + z)]"
proof -
  define r where "r = a * 262144 + x * 4096 + y * 64 + z"
  have lo: "0x10000 \<le> r"
    using assms unfolding r_def by (cases "a = 0") linarith+
  have hi: "r \<le> 0x10FFFF"
    using assms unfolding r_def by (cases "a = 4") linarith+
  from lo hi dm4 [OF assms(2,3,4), of a] show ?thesis
    unfolding utf8_EncodeRune_def r_def by simp
qed


lemma char_of_of_char_nat: "char_of (of_char c :: nat) = c"
  by simp

lemma decode_valid:
  assumes d: "utf8_DecodeRune (c # cs) = (r, n)" and v: "\<not> (r = RuneError \<and> n = 1)"
  shows "1 \<le> n \<and> n \<le> length (c # cs) \<and> utf8_EncodeRune r = take n (c # cs) \<and>
     utf8_DecodeRune (take n (c # cs) @ t) = (r, n)"
proof -
  define b0 where "b0 = (of_char c :: nat)"
  have c: "char_of b0 = c" by (simp add: b0_def)
  consider (ascii) "b0 < 0x80" | (two) "0xC2 \<le> b0" "b0 \<le> 0xDF"
    | (three) "0xE0 \<le> b0" "b0 \<le> 0xEF" | (four) "0xF0 \<le> b0" "b0 \<le> 0xF4"
    | (bad) "0x80 \<le> b0" "b0 < 0xC2 \<or> 0xF4 < b0"
    by linarith
  then show ?thesis
  proof cases
    case ascii
    with d have "r = b0" "n = 1" by (simp_all add: b0_def)
    with ascii c show ?thesis
      by (simp add: utf8_EncodeRune_def b0_def)
  next
    case two
    from two d v obtain c1 cs' where cs: "cs = c1 # cs'" and k: "is_cont (of_char c1)"
      by (cases cs) (auto simp: Let_def b0_def RuneError_def split: if_splits)
    define a x where "a = b0 - 0xC0" and "x = (of_char c1 :: nat) - 0x80"
    have b: "b0 = 0xC0 + a" "2 \<le> a" "a < 32" using two unfolding a_def by linarith+
    have x: "(of_char c1 :: nat) = 0x80 + x" "x < 64" using k unfolding x_def is_cont_def by linarith+
    have c1: "char_of (0x80 + x) = c1" using x(1) [symmetric] by simp
    from d two k cs have r: "r = a * 64 + x" and n: "n = 2"
      by (simp_all add: Let_def b0_def [symmetric] a_def x_def)
    have dec: "utf8_DecodeRune (c # c1 # t') = (r, n)" for t'
      using two k by (simp add: Let_def b0_def [symmetric] r n a_def x_def)
    from enc2 [OF b(2,3) x(2)] show ?thesis
      using dec by (simp add: r n cs c [unfolded b(1)] c1)
  next
    case three
    from three d v obtain c1 c2 cs' where cs: "cs = c1 # c2 # cs'"
      and k1: "(if b0 = 0xE0 then 0xA0 else 0x80) \<le> (of_char c1 :: nat)"
        "(of_char c1 :: nat) \<le> (if b0 = 0xED then 0x9F else 0xBF)"
      and k2: "is_cont (of_char c2)"
      by (cases cs; cases "tl cs")
        (auto simp: Let_def b0_def RuneError_def split: if_splits)
    define a x y where "a = b0 - 0xE0" and "x = (of_char c1 :: nat) - 0x80"
      and "y = (of_char c2 :: nat) - 0x80"
    have b: "b0 = 0xE0 + a" "a < 16" using three unfolding a_def by linarith+
    have x: "(of_char c1 :: nat) = 0x80 + x" "x < 64" "a = 0 \<Longrightarrow> 32 \<le> x" "a = 13 \<Longrightarrow> x < 32"
      using k1 b(1) by (auto simp: x_def split: if_splits)
    have y: "(of_char c2 :: nat) = 0x80 + y" "y < 64" using k2 unfolding y_def is_cont_def by linarith+
    have c1: "char_of (0x80 + x) = c1" using x(1) [symmetric] by simp
    have c2: "char_of (0x80 + y) = c2" using y(1) [symmetric] by simp
    from d three k1 k2 cs have r: "r = a * 4096 + x * 64 + y" and n: "n = 3"
      by (simp_all add: Let_def b0_def [symmetric] a_def x_def y_def)
    have dec: "utf8_DecodeRune (c # c1 # c2 # t') = (r, n)" for t'
      using three k1 k2 by (simp add: Let_def b0_def [symmetric] r n a_def x_def y_def)
    from enc3 [OF b(2) x(2) y(2) x(3,4)] show ?thesis
      using dec by (simp add: r n cs c [unfolded b(1)] c1 c2)
  next
    case four
    from four d v obtain c1 c2 c3 cs' where cs: "cs = c1 # c2 # c3 # cs'"
      and k1: "(if b0 = 0xF0 then 0x90 else 0x80) \<le> (of_char c1 :: nat)"
        "(of_char c1 :: nat) \<le> (if b0 = 0xF4 then 0x8F else 0xBF)"
      and k2: "is_cont (of_char c2)" and k3: "is_cont (of_char c3)"
      by (cases cs; cases "tl cs"; cases "tl (tl cs)")
        (auto simp: Let_def b0_def RuneError_def split: if_splits)
    define a x y z where "a = b0 - 0xF0" and "x = (of_char c1 :: nat) - 0x80"
      and "y = (of_char c2 :: nat) - 0x80" and "z = (of_char c3 :: nat) - 0x80"
    have b: "b0 = 0xF0 + a" "a < 5" using four unfolding a_def by linarith+
    have x: "(of_char c1 :: nat) = 0x80 + x" "x < 64" "a = 0 \<Longrightarrow> 16 \<le> x" "a = 4 \<Longrightarrow> x < 16"
      using k1 b(1) by (auto simp: x_def split: if_splits)
    have y: "(of_char c2 :: nat) = 0x80 + y" "y < 64" using k2 unfolding y_def is_cont_def by linarith+
    have z: "(of_char c3 :: nat) = 0x80 + z" "z < 64" using k3 unfolding z_def is_cont_def by linarith+
    have c1: "char_of (0x80 + x) = c1" using x(1) [symmetric] by simp
    have c2: "char_of (0x80 + y) = c2" using y(1) [symmetric] by simp
    have c3: "char_of (0x80 + z) = c3" using z(1) [symmetric] by simp
    from d four k1 k2 k3 cs have r: "r = a * 262144 + x * 4096 + y * 64 + z" and n: "n = 4"
      by (simp_all add: Let_def b0_def [symmetric] a_def x_def y_def z_def)
    have dec: "utf8_DecodeRune (c # c1 # c2 # c3 # t') = (r, n)" for t'
      using four k1 k2 k3 by (simp add: Let_def b0_def [symmetric] r n a_def x_def y_def z_def)
    from enc4 [OF b(2) x(2) y(2) z(2) x(3,4)] show ?thesis
      using dec by (simp add: r n cs c [unfolded b(1)] c1 c2 c3)
  next
    case bad
    with d have "r = RuneError \<and> n = 1"
      by (auto simp: b0_def Let_def)
    with v show ?thesis by simp
  qed
qed


subsection \<open>Quoting and unquoting\<close>

text \<open>
  \<open>utf8.ValidString\<close>: no byte of the string is read as the rune \<open>U+FFFD\<close> of width one.
\<close>

fun valid_utf8 :: "string \<Rightarrow> bool" where
  "valid_utf8 [] = True"
| "valid_utf8 (c # cs) =
     (\<not> (fst (utf8_DecodeRune (c # cs)) = RuneError \<and> snd (utf8_DecodeRune (c # cs)) = 1) \<and>
      valid_utf8 (drop (snd (utf8_DecodeRune (c # cs)) - 1) cs))"

lemma hexval_hex_char_all: "list_all (\<lambda>n. hexval (hex_char n) = Some n) [0..<16]"
  by code_simp

lemma hexval_hex_char: "n < 16 \<Longrightarrow> hexval (hex_char n) = Some n"
  using hexval_hex_char_all by (simp add: list_all_iff del: upt_rec_numeral)

lemma hexval_0: "hexval CHR ''0'' = Some 0"
  by (simp add: hexval_def)

lemma hexval_2: "hexval CHR ''2'' = Some 2"
  by (simp add: hexval_def)

lemma of_char_eqD: "(of_char c :: nat) = n \<Longrightarrow> c = char_of n"
  by auto

lemma unquote_plain:
  assumes "0x20 \<le> (of_char c :: nat)" "(of_char c :: nat) < 0x80" "(of_char c :: nat) \<noteq> 0x22"
    "(of_char c :: nat) \<noteq> 0x5C"
  shows "unquote (c # t) = prepend [c] (unquote t)"
  using assms by (simp add: Let_def)

lemma unquote_u4:
  assumes "hexval h1 = Some a" "hexval h2 = Some b" "hexval h3 = Some x" "hexval h4 = Some y"
    and "a * 4096 + b * 256 + x * 16 + y < 0xD800"
  shows "unquote (CHR 0x5C # CHR ''u'' # h1 # h2 # h3 # h4 # t) =
     prepend (utf8_EncodeRune (a * 4096 + b * 256 + x * 16 + y)) (unquote t)"
proof -
  have "unquote_u (CHR 0x5C # CHR ''u'' # h1 # h2 # h3 # h4 # t) =
      Some (a * 4096 + b * 256 + x * 16 + y, t)"
    using assms by (simp add: unquote_u_def Let_def)
  then show ?thesis
    by (subst unquote.simps) (simp add: Let_def)
qed


lemma char_consts:
  "char_of (0x22 :: nat) = CHR 0x22" "char_of (0x5C :: nat) = CHR 0x5C"
  "char_of (0x08 :: nat) = CHR 0x08" "char_of (0x0C :: nat) = CHR 0x0C"
  "char_of (0x0A :: nat) = CHR 0x0A" "char_of (0x0D :: nat) = CHR 0x0D"
  "char_of (0x09 :: nat) = CHR 0x09"
  by code_simp+

lemma esc_ascii:
  assumes lt: "(of_char c :: nat) < 0x80"
  shows "\<exists>E. json_escape (c # cs) = E @ json_escape cs \<and>
     (\<forall>t. unquote (E @ t) = prepend [c] (unquote t))"
proof -
  define b where "b = (of_char c :: nat)"
  have c: "c = char_of b" by (simp add: b_def)
  have cb: "char_of b = c" by (simp add: b_def)
  show ?thesis
  proof (cases "htmlSafe b")
    case True
    then have "json_escape (c # cs) = [c] @ json_escape cs"
      using lt by (simp add: Let_def b_def)
    moreover have "unquote ([c] @ t) = prepend [c] (unquote t)" for t
      using True unquote_plain [of c t] by (simp add: htmlSafe_def b_def)
    ultimately show ?thesis by blast
  next
    case unsafe: False
    consider (q) "b = 0x22" | (bs) "b = 0x5C" | (b8) "b = 0x08" | (bc) "b = 0x0C"
      | (ba) "b = 0x0A" | (bd) "b = 0x0D" | (b9) "b = 0x09"
      | (u) "b \<noteq> 0x22" "b \<noteq> 0x5C" "b \<noteq> 0x08" "b \<noteq> 0x0C" "b \<noteq> 0x0A" "b \<noteq> 0x0D" "b \<noteq> 0x09"
      by blast
    then show ?thesis
    proof cases
      case q
      then have cq: "c = CHR 0x22" using c by (simp add: char_consts)
      have "json_escape (c # cs) = [CHR 0x5C, c] @ json_escape cs"
        by (simp add: cq htmlSafe_def)
      moreover have "unquote ([CHR 0x5C, c] @ t) = prepend [c] (unquote t)" for t
        by (simp add: cq)
      ultimately show ?thesis by blast
    next
      case bs
      then have cq: "c = CHR 0x5C" using c by (simp add: char_consts)
      have "json_escape (c # cs) = [CHR 0x5C, c] @ json_escape cs"
        by (simp add: cq htmlSafe_def)
      moreover have "unquote ([CHR 0x5C, c] @ t) = prepend [c] (unquote t)" for t
        by (simp add: cq)
      ultimately show ?thesis by blast
    next
      case b8
      then have cq: "c = CHR 0x08" using c by (simp add: char_consts)
      have "json_escape (c # cs) = [CHR 0x5C, CHR ''b''] @ json_escape cs"
        by (simp add: cq htmlSafe_def)
      moreover have "unquote ([CHR 0x5C, CHR ''b''] @ t) = prepend [c] (unquote t)" for t
        by (simp add: cq)
      ultimately show ?thesis by blast
    next
      case bc
      then have cq: "c = CHR 0x0C" using c by (simp add: char_consts)
      have "json_escape (c # cs) = [CHR 0x5C, CHR ''f''] @ json_escape cs"
        by (simp add: cq htmlSafe_def)
      moreover have "unquote ([CHR 0x5C, CHR ''f''] @ t) = prepend [c] (unquote t)" for t
        by (simp add: cq)
      ultimately show ?thesis by blast
    next
      case ba
      then have cq: "c = CHR 0x0A" using c by (simp add: char_consts)
      have "json_escape (c # cs) = [CHR 0x5C, CHR ''n''] @ json_escape cs"
        by (simp add: cq htmlSafe_def)
      moreover have "unquote ([CHR 0x5C, CHR ''n''] @ t) = prepend [c] (unquote t)" for t
        by (simp add: cq)
      ultimately show ?thesis by blast
    next
      case bd
      then have cq: "c = CHR 0x0D" using c by (simp add: char_consts)
      have "json_escape (c # cs) = [CHR 0x5C, CHR ''r''] @ json_escape cs"
        by (simp add: cq htmlSafe_def)
      moreover have "unquote ([CHR 0x5C, CHR ''r''] @ t) = prepend [c] (unquote t)" for t
        by (simp add: cq)
      ultimately show ?thesis by blast
    next
      case b9
      then have cq: "c = CHR 0x09" using c by (simp add: char_consts)
      have "json_escape (c # cs) = [CHR 0x5C, CHR ''t''] @ json_escape cs"
        by (simp add: cq htmlSafe_def)
      moreover have "unquote ([CHR 0x5C, CHR ''t''] @ t) = prepend [c] (unquote t)" for t
        by (simp add: cq)
      ultimately show ?thesis by blast
    next
      case u
      let ?E = "[CHR 0x5C, CHR ''u'', CHR ''0'', CHR ''0'', hex_char (b div 16), hex_char (b mod 16)]"
      have "json_escape (c # cs) = ?E @ json_escape cs"
        using lt unsafe u by (simp add: Let_def b_def [symmetric])
      moreover have "unquote (?E @ t) = prepend [c] (unquote t)" for t
      proof -
        have h1: "hexval (hex_char (b div 16)) = Some (b div 16)"
          using lt by (intro hexval_hex_char) (simp add: b_def)
        have h2: "hexval (hex_char (b mod 16)) = Some (b mod 16)"
          by (intro hexval_hex_char) simp
        have e: "0 * 4096 + 0 * 256 + (b div 16) * 16 + b mod 16 = b" by simp
        have "0 * 4096 + 0 * 256 + (b div 16) * 16 + b mod 16 < 0xD800"
          unfolding e using lt by (simp add: b_def)
        from unquote_u4 [OF hexval_0 hexval_0 h1 h2 this, of t]
        show ?thesis
          unfolding e using lt by (simp add: utf8_EncodeRune_def cb b_def [symmetric])
      qed
      ultimately show ?thesis by blast
    qed
  qed
qed


lemma hex_char_8_9: "hex_char 8 = CHR ''8''" "hex_char 9 = CHR ''9''"
  by (simp_all add: hex_char_def)

lemma hexval_8_9: "hexval CHR ''8'' = Some 8" "hexval CHR ''9'' = Some 9"
  by (simp_all add: hexval_def)

lemma esc_multi:
  assumes ge: "\<not> (of_char c :: nat) < 0x80"
    and d: "utf8_DecodeRune (c # cs) = (r, n)" and v: "\<not> (r = RuneError \<and> n = 1)"
  shows "\<exists>E. json_escape (c # cs) = E @ json_escape (drop (n - 1) cs) \<and>
     (\<forall>t. unquote (E @ t) = prepend (take n (c # cs)) (unquote t))"
proof -
  note dv = decode_valid [OF d v]
  have n1: "1 \<le> n" and nl: "n \<le> length (c # cs)"
    and enc: "utf8_EncodeRune r = take n (c # cs)"
    using dv [of "[]"] by simp_all
  have dec: "utf8_DecodeRune (take n (c # cs) @ t) = (r, n)" for t
    using dv [of t] by simp
  have tk: "take n (c # cs) = c # take (n - 1) cs"
    using n1 by (cases n) simp_all
  consider (ls) "r = 0x2028" | (ps) "r = 0x2029" | (other) "r \<noteq> 0x2028" "r \<noteq> 0x2029"
    by blast
  then show ?thesis
  proof cases
    case ls
    let ?E = "[CHR 0x5C, CHR ''u'', CHR ''2'', CHR ''0'', CHR ''2'', CHR ''8'']"
    have "json_escape (c # cs) = ?E @ json_escape (drop (n - 1) cs)"
      using ge v ls by (auto simp add: d Let_def RuneError_def hex_char_8_9 simp del: utf8_DecodeRune.simps)
    moreover have "unquote (?E @ t) = prepend (take n (c # cs)) (unquote t)" for t
      using unquote_u4 [OF hexval_2 hexval_0 hexval_2 hexval_8_9(1), of t]
      by (simp add: ls enc [symmetric])
    ultimately show ?thesis by blast
  next
    case ps
    let ?E = "[CHR 0x5C, CHR ''u'', CHR ''2'', CHR ''0'', CHR ''2'', CHR ''9'']"
    have "json_escape (c # cs) = ?E @ json_escape (drop (n - 1) cs)"
      using ge v ps by (auto simp add: d Let_def RuneError_def hex_char_8_9 simp del: utf8_DecodeRune.simps)
    moreover have "unquote (?E @ t) = prepend (take n (c # cs)) (unquote t)" for t
      using unquote_u4 [OF hexval_2 hexval_0 hexval_2 hexval_8_9(2), of t]
      by (simp add: ps enc [symmetric])
    ultimately show ?thesis by blast
  next
    case other
    have "json_escape (c # cs) = take n (c # cs) @ json_escape (drop (n - 1) cs)"
      using ge v other
      by (auto simp add: d Let_def simp del: utf8_DecodeRune.simps take_Suc_Cons take_Cons_numeral)
    moreover have "unquote (take n (c # cs) @ t) = prepend (take n (c # cs)) (unquote t)" for t
    proof -
      define pre where "pre = take (n - 1) cs"
      have len: "length pre = n - 1" using nl n1 by (simp add: pre_def)
      have tk': "take n (c # cs) = c # pre" using tk by (simp add: pre_def)
      have dec': "utf8_DecodeRune (c # pre @ t) = (r, n)"
        using dec [of t] by (simp add: tk')
      have "unquote (take n (c # cs) @ t) = unquote (c # pre @ t)"
        by (simp only: tk' append_Cons)
      also have "\<dots> = prepend (utf8_EncodeRune r) (unquote (drop (n - 1) (pre @ t)))"
        using ge by (subst unquote.simps) (simp add: Let_def dec' del: utf8_DecodeRune.simps)
      also have "drop (n - 1) (pre @ t) = t" using len by simp
      finally show ?thesis unfolding enc .
    qed
    ultimately show ?thesis by blast
  qed
qed

lemma prepend_Some_eq: "prepend pre (Some (t, rest)) = Some (pre @ t, rest)"
  by (simp add: prepend_def)

lemma unquote_escape:
  "valid_utf8 s \<Longrightarrow> unquote (json_escape s @ CHR 0x22 # rest) = Some (s, rest)"
proof (induction "length s" arbitrary: s rule: less_induct)
  case less
  show ?case
  proof (cases s)
    case Nil
    then show ?thesis by simp
  next
    case (Cons c cs)
    obtain r n where d: "utf8_DecodeRune (c # cs) = (r, n)" by (cases "utf8_DecodeRune (c # cs)")
    from less(2) Cons have v: "\<not> (r = RuneError \<and> n = 1)"
      and vt: "valid_utf8 (drop (n - 1) cs)"
      by (simp_all add: d del: utf8_DecodeRune.simps)
    have n1: "1 \<le> n" using decode_valid [OF d v, of "[]"] by simp
    have ih: "unquote (json_escape (drop (n - 1) cs) @ CHR 0x22 # rest) = Some (drop (n - 1) cs, rest)"
      using less(1) [OF _ vt] Cons by simp
    have whole: "take n (c # cs) @ drop (n - 1) cs = c # cs"
      using n1 by (cases n) simp_all
    have "\<exists>E. json_escape (c # cs) = E @ json_escape (drop (n - 1) cs) \<and>
       (\<forall>t. unquote (E @ t) = prepend (take n (c # cs)) (unquote t))"
    proof (cases "(of_char c :: nat) < 0x80")
      case True
      with d have "n = 1" by simp
      with esc_ascii [OF True, of cs] show ?thesis by simp
    next
      case False
      from esc_multi [OF False d v] show ?thesis .
    qed
    then obtain E where e1: "json_escape (c # cs) = E @ json_escape (drop (n - 1) cs)"
      and e2: "\<And>t. unquote (E @ t) = prepend (take n (c # cs)) (unquote t)" by blast
    have "unquote (json_escape s @ CHR 0x22 # rest) =
        unquote (E @ (json_escape (drop (n - 1) cs) @ CHR 0x22 # rest))"
      unfolding Cons e1 by simp
    also have "\<dots> = Some (take n (c # cs) @ drop (n - 1) cs, rest)"
      unfolding e2 ih prepend_Some_eq ..
    finally show ?thesis unfolding whole Cons .
  qed
qed


subsection \<open>Arrays and objects\<close>

lemma skip_ws_Cons: "\<not> is_ws c \<Longrightarrow> skip_ws (c # t) = c # t"
  by (simp add: skip_ws_def)

lemma not_ws: "\<not> is_ws (CHR 0x22)" "\<not> is_ws CHR '',''" "\<not> is_ws CHR '']''" "\<not> is_ws CHR ''}''"
  "\<not> is_ws CHR '':''" "\<not> is_ws CHR ''[''" "\<not> is_ws CHR ''{''"
  by (simp_all add: is_ws_def)

lemma parse_elem_quote:
  "valid_utf8 x \<Longrightarrow> parse_elem (json_quote x @ t) = Some (x, t)"
  using unquote_escape [of x t] by (simp add: parse_elem_def json_quote_def)

lemma json_quote_Cons: "json_quote x @ t = CHR 0x22 # (json_escape x @ CHR 0x22 # t)"
  by (simp add: json_quote_def)

lemma skip_ws_quote: "skip_ws (json_quote x @ t) = json_quote x @ t"
  unfolding json_quote_Cons by (rule skip_ws_Cons) (rule not_ws)

lemma parse_elems_join:
  "xs \<noteq> [] \<Longrightarrow> list_all valid_utf8 xs \<Longrightarrow>
   parse_elems (join '','' (map json_quote xs) @ CHR '']'' # t) = Some (xs, t)"
proof (induction xs rule: list_nonempty_induct)
  case (single x)
  then have "parse_elem (skip_ws (json_quote x @ CHR '']'' # t)) = Some (x, CHR '']'' # t)"
    by (simp add: skip_ws_quote parse_elem_quote)
  then show ?case
    by (subst parse_elems.simps) (simp add: skip_ws_Cons not_ws)
next
  case (cons x xs)
  obtain y ys where xs: "xs = y # ys" using cons(1) by (cases xs) auto
  let ?t = "join '','' (map json_quote xs) @ CHR '']'' # t"
  have j: "join '','' (map json_quote (x # xs)) @ CHR '']'' # t = json_quote x @ CHR '','' # ?t"
    by (simp add: xs)
  have "parse_elem (skip_ws (json_quote x @ CHR '','' # ?t)) = Some (x, CHR '','' # ?t)"
    using cons(3) by (simp add: skip_ws_quote parse_elem_quote)
  moreover have "parse_elems ?t = Some (xs, t)" using cons by simp
  ultimately show ?case
    unfolding j by (subst parse_elems.simps) (simp add: skip_ws_Cons not_ws)
qed

lemma skip_ws_Nil: "skip_ws [] = []"
  by (simp add: skip_ws_def)

lemma Unmarshal_Marshal_strings:
  assumes "list_all valid_utf8 xs"
  shows "json_Unmarshal_strings (json_Marshal_strings xs) = Inr (Some xs)"
proof (cases xs)
  case Nil
  then show ?thesis
    by (simp add: json_Unmarshal_strings_def json_Marshal_strings_def skip_ws_Cons not_ws
        skip_ws_Nil)
next
  case (Cons y ys)
  let ?rest = "join '','' (map json_quote xs) @ '']''"
  have m: "json_Marshal_strings xs = CHR ''['' # ?rest"
    by (simp add: json_Marshal_strings_def)
  have p: "parse_elems ?rest = Some (xs, [])"
    using parse_elems_join [of xs "[]"] assms Cons by simp
  obtain r' where r: "?rest = CHR 0x22 # r'"
    by (cases ys) (simp_all add: Cons json_quote_def)
  have s: "skip_ws ?rest = CHR 0x22 # r'"
    unfolding r by (rule skip_ws_Cons) (rule not_ws)
  show ?thesis
    unfolding m json_Unmarshal_strings_def
    by (simp add: skip_ws_Cons not_ws skip_ws_Nil s p Let_def)
qed


definition valid_member :: "string \<times> string \<Rightarrow> bool" where
  "valid_member kv \<longleftrightarrow> valid_utf8 (fst kv) \<and> valid_utf8 (snd kv)"

lemma json_member_Cons:
  "json_member kv @ t =
     CHR 0x22 # (json_escape (fst kv) @ CHR 0x22 # CHR '':'' # (json_quote (snd kv) @ t))"
  by (simp add: json_member_def json_quote_def)

lemma parse_member_member:
  assumes "valid_member kv"
  shows "parse_member (json_member kv @ t) = Some (kv, t)"
proof -
  have k: "unquote (json_escape (fst kv) @ CHR 0x22 # CHR '':'' # (json_quote (snd kv) @ t)) =
      Some (fst kv, CHR '':'' # (json_quote (snd kv) @ t))"
    using assms by (intro unquote_escape) (simp add: valid_member_def)
  have v: "parse_elem (skip_ws (json_quote (snd kv) @ t)) = Some (snd kv, t)"
    using assms by (simp add: skip_ws_quote parse_elem_quote valid_member_def)
  show ?thesis
    unfolding json_member_Cons parse_member_def
    by (simp add: skip_ws_Cons not_ws k v)
qed

lemma parse_members_join:
  "kvs \<noteq> [] \<Longrightarrow> list_all valid_member kvs \<Longrightarrow>
   parse_members (join '','' (map json_member kvs) @ CHR ''}'' # t) = Some (kvs, t)"
proof (induction kvs rule: list_nonempty_induct)
  case (single x)
  then have "parse_member (json_member x @ CHR ''}'' # t) = Some (x, CHR ''}'' # t)"
    by (simp add: parse_member_member)
  then show ?case
    by (subst parse_members.simps) (simp add: skip_ws_Cons not_ws)
next
  case (cons x xs)
  obtain y ys where xs: "xs = y # ys" using cons(1) by (cases xs) auto
  let ?t = "join '','' (map json_member xs) @ CHR ''}'' # t"
  have j: "join '','' (map json_member (x # xs)) @ CHR ''}'' # t = json_member x @ CHR '','' # ?t"
    by (simp add: xs)
  have "parse_member (json_member x @ CHR '','' # ?t) = Some (x, CHR '','' # ?t)"
    using cons(3) by (simp add: parse_member_member)
  moreover have "parse_members ?t = Some (xs, t)" using cons by simp
  ultimately show ?case
    unfolding j by (subst parse_members.simps) (simp add: skip_ws_Cons not_ws)
qed

lemma Unmarshal_Marshal_map:
  assumes "list_all valid_member m"
  shows "json_Unmarshal_map (json_Marshal_map m) m0 = Inr (Some (store_members (sort_key fst m) m0))"
proof (cases "sort_key fst m")
  case Nil
  then show ?thesis
    by (simp add: json_Unmarshal_map_def json_Marshal_map_def skip_ws_Cons not_ws skip_ws_Nil)
next
  case (Cons y ys)
  let ?kvs = "sort_key fst m"
  let ?rest = "join '','' (map json_member ?kvs) @ ''}''"
  have va: "list_all valid_member ?kvs"
    using assms by (simp add: list_all_iff)
  have m: "json_Marshal_map m = CHR ''{'' # ?rest"
    by (simp add: json_Marshal_map_def)
  have p: "parse_members ?rest = Some (?kvs, [])"
    using parse_members_join [of ?kvs "[]"] va Cons by simp
  obtain r' where r: "?rest = CHR 0x22 # r'"
    by (cases ys) (simp_all add: Cons json_member_def json_quote_def)
  have s: "skip_ws ?rest = CHR 0x22 # r'"
    unfolding r by (rule skip_ws_Cons) (rule not_ws)
  show ?thesis
    unfolding m json_Unmarshal_map_def
    by (simp add: skip_ws_Cons not_ws skip_ws_Nil s p Let_def)
qed

text \<open>The map a sequence of stores leaves.\<close>

lemma map_of_fold_update:
  "map_of (fold (\<lambda>kv ls. AList.update (fst kv) (snd kv) ls) gen al) k =
     (case map_of (rev gen) k of Some v \<Rightarrow> Some v | None \<Rightarrow> map_of al k)"
  by (induction gen arbitrary: al) (auto simp: update_conv' split: option.splits)

lemma map_of_rev_distinct: "distinct (map fst xs) \<Longrightarrow> map_of (rev xs) = map_of xs"
proof (induction xs)
  case Nil
  then show ?case by simp
next
  case (Cons x xs)
  then have "fst x \<notin> dom (map_of xs)"
    by (simp add: dom_map_of_conv_image_fst)
  then have "map_of xs (fst x) = None" by blast
  with Cons show ?case
    by (cases x) (auto simp: map_add_def fun_eq_iff split: option.splits)
qed

lemma map_of_sort_key:
  assumes "distinct (map fst m)"
  shows "map_of (sort_key fst m) = map_of m" and "distinct (map fst (sort_key fst m))"
proof -
  show d: "distinct (map fst (sort_key fst m))"
    using assms by (simp add: distinct_map)
  show "map_of (sort_key fst m) = map_of m"
    using d assms by (simp add: map_of_inject_set)
qed

lemma store_members_fresh:
  assumes "distinct (map fst m)"
  shows "map_of (store_members (sort_key fst m) None) = map_of m"
proof
  fix k
  have "map_of (rev (sort_key fst m)) = map_of m"
    using map_of_rev_distinct [OF map_of_sort_key(2) [OF assms]] map_of_sort_key(1) [OF assms]
    by simp
  then show "map_of (store_members (sort_key fst m) None) k = map_of m k"
    by (simp add: store_members_def map_of_fold_update split: option.splits)
qed

lemma store_members_same:
  assumes "distinct (map fst m)"
  shows "map_of (store_members (sort_key fst m) (Some m)) = map_of m"
proof
  fix k
  have "map_of (rev (sort_key fst m)) = map_of m"
    using map_of_rev_distinct [OF map_of_sort_key(2) [OF assms]] map_of_sort_key(1) [OF assms]
    by simp
  then show "map_of (store_members (sort_key fst m) (Some m)) k = map_of m k"
    by (simp add: store_members_def map_of_fold_update split: option.splits)
qed

lemma store_members_distinct:
  "distinct (map fst (case m0 of None \<Rightarrow> [] | Some m \<Rightarrow> m)) \<Longrightarrow>
   distinct (map fst (store_members kvs m0))"
proof -
  have "distinct (map fst al) \<Longrightarrow>
      distinct (map fst (fold (\<lambda>kv m. AList.update (fst kv) (snd kv) m) kvs al))" for al
    by (induction kvs arbitrary: al) (simp_all add: distinct_update)
  then show "distinct (map fst (case m0 of None \<Rightarrow> [] | Some m \<Rightarrow> m)) \<Longrightarrow>
      distinct (map fst (store_members kvs m0))"
    unfolding store_members_def .
qed


subsection \<open>The fields of a project\<close>

text \<open>
  The list and the map a project holds, the nil list read as the empty list and the nil
  map as the empty map.
\<close>

definition ids_of :: "Project \<Rightarrow> string list" where
  "ids_of p = (case ContainerIDs p of None \<Rightarrow> [] | Some xs \<Rightarrow> xs)"

definition env_of :: "Project \<Rightarrow> (string \<times> string) list" where
  "env_of p = (case EnvVars p of None \<Rightarrow> [] | Some m \<Rightarrow> m)"



definition stored :: Project where
  "stored = demo\<lparr>ContainerIDs := Some [''4f5a'', ''a<b'', [CHR 0xC3, CHR 0xA9]],
     EnvVars := Some [(''PATH'', ''/bin&/usr''),
       (''GREETING'', [CHR 0x22, CHR 0xE2, CHR 0x80, CHR 0xA8, CHR 0x0A])]\<rparr>"

lemma stored_valid:
  "list_all valid_utf8 (ids_of stored)" "list_all valid_member (env_of stored)"
  "distinct (map fst (env_of stored))"
  by (simp_all add: stored_def demo_def ids_of_def env_of_def valid_member_def Let_def
      RuneError_def is_cont_def)

lemma stored_store:
  "store_members (sort_key fst (env_of stored)) None =
     [(''GREETING'', [CHR 0x22, CHR 0xE2, CHR 0x80, CHR 0xA8, CHR 0x0A]), (''PATH'', ''/bin&/usr'')]"
  by code_simp

text \<open>
  Claim C10, for well-formed UTF-8.  Let the container ids, the environment keys and the
  environment values of a project be well-formed UTF-8, each key held once (as in a Go
  map).  Then \<open>ParseContainerIDs\<close> on the text of \<open>ContainerIDsJSON\<close> succeeds and sets the
  list to the same list, and \<open>ParseEnvVars\<close> on the text of \<open>EnvVarsJSON\<close>, into a project
  that has no map yet or into the project the text was made from, succeeds and sets the
  map to one with the same entries.  A nil list is written as \<open>[]\<close> and read back as the
  empty list; a nil map is written as \<open>{}\<close> and read back as the empty map.
\<close>

theorem text_forms_round_trip:
  assumes "list_all valid_utf8 (ids_of p)" and "list_all valid_member (env_of p)"
    and "distinct (map fst (env_of p))"
    and "EnvVars q = None \<or> EnvVars q = EnvVars p"
  shows "ParseContainerIDs q (ContainerIDsJSON p) = Inr (q\<lparr>ContainerIDs := Some (ids_of p)\<rparr>) \<and>
     ParseEnvVars q (EnvVarsJSON p) =
       Inr (q\<lparr>EnvVars := Some (store_members (sort_key fst (env_of p)) (EnvVars q))\<rparr>) \<and>
     map_of (store_members (sort_key fst (env_of p)) (EnvVars q)) = map_of (env_of p) \<and>
     distinct (map fst (store_members (sort_key fst (env_of p)) (EnvVars q))) \<and>
     (ContainerIDs p = None \<longrightarrow> ContainerIDsJSON p = ''[]'') \<and>
     (EnvVars p = None \<longrightarrow> EnvVarsJSON p = ''{}'')"
proof -
  have j1: "ContainerIDsJSON p = json_Marshal_strings (ids_of p)"
    by (simp add: ContainerIDsJSON_def ids_of_def json_Marshal_strings_def split: option.splits)
  have j2: "EnvVarsJSON p = json_Marshal_map (env_of p)"
    by (simp add: EnvVarsJSON_def env_of_def json_Marshal_map_def split: option.splits)
  have n1: "json_Marshal_strings xs \<noteq> []" for xs by (simp add: json_Marshal_strings_def)
  have n2: "json_Marshal_map m \<noteq> []" for m by (simp add: json_Marshal_map_def)
  have 1: "ParseContainerIDs q (ContainerIDsJSON p) = Inr (q\<lparr>ContainerIDs := Some (ids_of p)\<rparr>)"
    unfolding j1 ParseContainerIDs_def
    by (simp add: n1 Unmarshal_Marshal_strings [OF assms(1)])
  have 2: "ParseEnvVars q (EnvVarsJSON p) =
       Inr (q\<lparr>EnvVars := Some (store_members (sort_key fst (env_of p)) (EnvVars q))\<rparr>)"
    unfolding j2 ParseEnvVars_def
    by (simp add: n2 Unmarshal_Marshal_map [OF assms(2)])
  have 3: "map_of (store_members (sort_key fst (env_of p)) (EnvVars q)) = map_of (env_of p)"
  proof (cases "EnvVars q")
    case None
    then show ?thesis using store_members_fresh [OF assms(3)] by simp
  next
    case (Some m)
    with assms(4) have "EnvVars p = Some m" by simp
    then have "env_of p = m" by (simp add: env_of_def)
    with Some store_members_same [OF assms(3)] show ?thesis by simp
  qed
  have "distinct (map fst (case EnvVars q of None \<Rightarrow> [] | Some m \<Rightarrow> m))"
    using assms(3,4) by (auto simp: env_of_def split: option.splits)
  then have 4: "distinct (map fst (store_members (sort_key fst (env_of p)) (EnvVars q)))"
    by (rule store_members_distinct)
  have 5: "ContainerIDs p = None \<longrightarrow> ContainerIDsJSON p = ''[]''"
    by (simp add: ContainerIDsJSON_def)
  have 6: "EnvVars p = None \<longrightarrow> EnvVarsJSON p = ''{}''"
    by (simp add: EnvVarsJSON_def)
  from 1 2 3 4 5 6 show ?thesis by blast
qed

theorem text_forms_round_trip_witness:
  "ParseContainerIDs demo (ContainerIDsJSON stored) =
     Inr (demo\<lparr>ContainerIDs := Some [''4f5a'', ''a<b'', [CHR 0xC3, CHR 0xA9]]\<rparr>) \<and>
   ParseEnvVars demo (EnvVarsJSON stored) =
     Inr (demo\<lparr>EnvVars := Some [(''GREETING'', [CHR 0x22, CHR 0xE2, CHR 0x80, CHR 0xA8, CHR 0x0A]),
       (''PATH'', ''/bin&/usr'')]\<rparr>) \<and>
   ParseContainerIDs demo (ContainerIDsJSON demo) = Inr (demo\<lparr>ContainerIDs := Some []\<rparr>) \<and>
   ParseEnvVars demo (EnvVarsJSON demo) = Inr (demo\<lparr>EnvVars := Some []\<rparr>) \<and>
   ContainerIDsJSON demo = ''[]'' \<and> EnvVarsJSON demo = ''{}''"
proof -
  have d: "EnvVars demo = None" "ContainerIDs demo = None" "ids_of demo = []" "env_of demo = []"
    by (simp_all add: demo_def ids_of_def env_of_def)
  have s: "ids_of stored = [''4f5a'', ''a<b'', [CHR 0xC3, CHR 0xA9]]"
    by (simp add: stored_def ids_of_def)
  have e: "store_members [] None = []" by (simp add: store_members_def)
  have a: "ParseContainerIDs demo (ContainerIDsJSON stored) = Inr (demo\<lparr>ContainerIDs := Some (ids_of stored)\<rparr>)"
    "ParseEnvVars demo (EnvVarsJSON stored) =
       Inr (demo\<lparr>EnvVars := Some (store_members (sort_key fst (env_of stored)) (EnvVars demo))\<rparr>)"
    using text_forms_round_trip [OF stored_valid, of demo] d(1) by blast+
  have dv: "list_all valid_utf8 (ids_of demo)" "list_all valid_member (env_of demo)"
    "distinct (map fst (env_of demo))" "EnvVars demo = None \<or> EnvVars demo = EnvVars demo"
    by (simp_all add: d)
  have b: "ParseContainerIDs demo (ContainerIDsJSON demo) = Inr (demo\<lparr>ContainerIDs := Some (ids_of demo)\<rparr>)"
    "ParseEnvVars demo (EnvVarsJSON demo) =
       Inr (demo\<lparr>EnvVars := Some (store_members (sort_key fst (env_of demo)) (EnvVars demo))\<rparr>)"
    "ContainerIDsJSON demo = ''[]''" "EnvVarsJSON demo = ''{}''"
    using text_forms_round_trip [OF dv] d(1,2) by blast+
  note a(1) [unfolded s] a(2) [unfolded d(1) stored_store]
    b(1) [unfolded d(3)] b(2) [unfolded d(1,4) sort_key_simps e] b(3,4)
  then show ?thesis by (intro conjI)
qed

subsection \<open>Strings that are not UTF-8\<close>

text \<open>
  A byte that starts no well-formed sequence is written as the escape of \<open>U+FFFD\<close>, which
  reads back as the three bytes of that rune.
\<close>

lemma char_of_fffd: "char_of (0xEF :: nat) = CHR 0xEF" "char_of (0xBF :: nat) = CHR 0xBF"
  "char_of (0xBD :: nat) = CHR 0xBD"
  by code_simp+

lemma encode_RuneError: "utf8_EncodeRune RuneError = [CHR 0xEF, CHR 0xBF, CHR 0xBD]"
  by (simp add: utf8_EncodeRune_def RuneError_def char_of_fffd)

lemma hexval_f_d: "hexval CHR ''f'' = Some 15" "hexval CHR ''d'' = Some 13"
  by (simp_all add: hexval_def)

lemma escape_invalid:
  "json_escape [CHR 0xFF] = [CHR 0x5C, CHR ''u'', CHR ''f'', CHR ''f'', CHR ''f'', CHR ''d'']"
  by (simp add: Let_def)

lemma unquote_fffd:
  "unquote (CHR 0x5C # CHR ''u'' # CHR ''f'' # CHR ''f'' # CHR ''f'' # CHR ''d'' # CHR 0x22 # t) =
     Some ([CHR 0xEF, CHR 0xBF, CHR 0xBD], t)"
proof -
  have "unquote_u (CHR 0x5C # CHR ''u'' # CHR ''f'' # CHR ''f'' # CHR ''f'' # CHR ''d'' # CHR 0x22 # t)
      = Some (RuneError, CHR 0x22 # t)"
    by (simp add: unquote_u_def hexval_f_d RuneError_def)
  then show ?thesis
    by (subst unquote.simps) (simp add: Let_def encode_RuneError prepend_def)
qed

lemma invalid_list_text:
  "json_Marshal_strings [[CHR 0xFF]] =
     [CHR ''['', CHR 0x22, CHR 0x5C, CHR ''u'', CHR ''f'', CHR ''f'', CHR ''f'', CHR ''d'', CHR 0x22, CHR '']'']"
  by (simp add: json_Marshal_strings_def json_quote_def escape_invalid)

lemma invalid_list_back:
  "json_Unmarshal_strings
     [CHR ''['', CHR 0x22, CHR 0x5C, CHR ''u'', CHR ''f'', CHR ''f'', CHR ''f'', CHR ''d'', CHR 0x22, CHR '']''] =
   Inr (Some [[CHR 0xEF, CHR 0xBF, CHR 0xBD]])"
proof -
  have "parse_elems [CHR 0x22, CHR 0x5C, CHR ''u'', CHR ''f'', CHR ''f'', CHR ''f'', CHR ''d'', CHR 0x22, CHR '']'']
     = Some ([[CHR 0xEF, CHR 0xBF, CHR 0xBD]], [])"
    by (subst parse_elems.simps)
      (simp add: skip_ws_Cons not_ws parse_elem_def unquote_fffd del: unquote.simps)
  then show ?thesis
    by (simp add: json_Unmarshal_strings_def skip_ws_Cons not_ws skip_ws_Nil Let_def)
qed

lemma invalid_map_text:
  "json_Marshal_map [(''KEY'', [CHR 0xFF])] =
     [CHR ''{'', CHR 0x22, CHR ''K'', CHR ''E'', CHR ''Y'', CHR 0x22, CHR '':'',
      CHR 0x22, CHR 0x5C, CHR ''u'', CHR ''f'', CHR ''f'', CHR ''f'', CHR ''d'', CHR 0x22, CHR ''}'']"
  by (simp add: json_Marshal_map_def json_member_def json_quote_def escape_invalid htmlSafe_def
      Let_def)

lemma invalid_map_back:
  "json_Unmarshal_map
     [CHR ''{'', CHR 0x22, CHR ''K'', CHR ''E'', CHR ''Y'', CHR 0x22, CHR '':'',
      CHR 0x22, CHR 0x5C, CHR ''u'', CHR ''f'', CHR ''f'', CHR ''f'', CHR ''d'', CHR 0x22, CHR ''}''] None =
   Inr (Some [(''KEY'', [CHR 0xEF, CHR 0xBF, CHR 0xBD])])"
proof -
  let ?v = "[CHR 0x22, CHR 0x5C, CHR ''u'', CHR ''f'', CHR ''f'', CHR ''f'', CHR ''d'', CHR 0x22, CHR ''}'']"
  have k: "unquote (CHR ''K'' # CHR ''E'' # CHR ''Y'' # CHR 0x22 # CHR '':'' # ?v) =
      Some (''KEY'', CHR '':'' # ?v)"
    using unquote_escape [of "''KEY''" "CHR '':'' # ?v"]
    by (simp add: Let_def htmlSafe_def RuneError_def del: unquote.simps)
  have "parse_member (CHR 0x22 # CHR ''K'' # CHR ''E'' # CHR ''Y'' # CHR 0x22 # CHR '':'' # ?v) =
      Some ((''KEY'', [CHR 0xEF, CHR 0xBF, CHR 0xBD]), ''}'')"
    unfolding parse_member_def
    by (simp add: skip_ws_Cons not_ws k parse_elem_def unquote_fffd del: unquote.simps)
  then have "parse_members (CHR 0x22 # CHR ''K'' # CHR ''E'' # CHR ''Y'' # CHR 0x22 # CHR '':'' # ?v) =
      Some ([(''KEY'', [CHR 0xEF, CHR 0xBF, CHR 0xBD])], [])"
    by (subst parse_members.simps) (simp add: skip_ws_Cons not_ws)
  then show ?thesis
    by (simp add: json_Unmarshal_map_def skip_ws_Cons not_ws skip_ws_Nil Let_def store_members_def)
qed

text \<open>
  Claim C10 as stated fails.  A container id, or the value of an environment variable,
  that is the single byte \<open>0xFF\<close> is written as the escape of \<open>U+FFFD\<close> and parses back
  as the three bytes \<open>0xEF 0xBF 0xBD\<close>: the list and the map that come back differ from
  the ones that were written.
\<close>

theorem text_forms_counterexample:
  "ParseContainerIDs demo (ContainerIDsJSON (demo\<lparr>ContainerIDs := Some [[CHR 0xFF]]\<rparr>)) =
     Inr (demo\<lparr>ContainerIDs := Some [[CHR 0xEF, CHR 0xBF, CHR 0xBD]]\<rparr>) \<and>
   ParseEnvVars demo (EnvVarsJSON (demo\<lparr>EnvVars := Some [(''KEY'', [CHR 0xFF])]\<rparr>)) =
     Inr (demo\<lparr>EnvVars := Some [(''KEY'', [CHR 0xEF, CHR 0xBF, CHR 0xBD])]\<rparr>)"
proof -
  have d: "EnvVars demo = None" by (simp add: demo_def)
  show ?thesis
    unfolding ParseContainerIDs_def ContainerIDsJSON_def ParseEnvVars_def EnvVarsJSON_def
    by (simp add: invalid_list_text invalid_list_back invalid_map_text invalid_map_back d)
qed

section \<open>The project store\<close>

text \<open>
  The table \<open>projects\<close> of the database: one row per project, \<open>id\<close> the primary key and
  \<open>name\<close> unique; the environment variables and container ids are text columns.  A
  statement run against the database fails with the driver's error when the database has
  a fault (the error's message); no operation sets or clears the fault, so it is the same
  for all the statements of one run, and a store that starts to fail between two runs is
  the database with the field set.  The clock read by \<open>time.Now()\<close> is the parameter
  \<open>now\<close>.
\<close>

record row =
  col_id :: string
  col_name :: string
  col_git_url :: string
  col_branch :: string
  col_deploy_type :: string
  col_image :: string
  col_domain :: string
  col_use_subdomain :: int
  col_port :: int
  col_env_vars :: string
  col_auto_deploy :: int
  col_last_commit :: string
  col_status :: string
  col_status_msg :: string
  col_container_ids :: string
  col_created_at :: nat
  col_updated_at :: nat

record DB =
  projects :: "row list"
  fault :: "string option"

text \<open>\<open>SELECT ... WHERE <column> = ?\<close> with \<open>QueryRow(...).Scan\<close>: the first matching row.\<close>

definition QueryRow :: "DB \<Rightarrow> (row \<Rightarrow> bool) \<Rightarrow> error + row" where
  "QueryRow db matches =
     (case fault db of
        Some msg \<Rightarrow> Inl (Err msg)
      | None \<Rightarrow> (case find matches (projects db) of None \<Rightarrow> Inl ErrNoRows | Some r \<Rightarrow> Inr r))"

text \<open>
  \<open>UPDATE projects SET ... WHERE id = ?\<close> and \<open>DELETE FROM projects WHERE id = ?\<close>: the
  number of rows affected and the new database.
\<close>

definition Exec_update :: "DB \<Rightarrow> string \<Rightarrow> (row \<Rightarrow> row) \<Rightarrow> error + nat \<times> DB" where
  "Exec_update db i f =
     (case fault db of
        Some msg \<Rightarrow> Inl (Err msg)
      | None \<Rightarrow>
          Inr (length (filter (\<lambda>r. col_id r = i) (projects db)),
               db\<lparr>projects := map (\<lambda>r. if col_id r = i then f r else r) (projects db)\<rparr>))"

definition Exec_delete :: "DB \<Rightarrow> string \<Rightarrow> error + nat \<times> DB" where
  "Exec_delete db i =
     (case fault db of
        Some msg \<Rightarrow> Inl (Err msg)
      | None \<Rightarrow>
          Inr (length (filter (\<lambda>r. col_id r = i) (projects db)),
               db\<lparr>projects := filter (\<lambda>r. col_id r \<noteq> i) (projects db)\<rparr>))"

text \<open>
  What \<open>GetByID\<close>, \<open>GetByName\<close>, \<open>List\<close> and \<open>ListAutoDeployEnabled\<close> each do with a scanned
  row: fill a fresh project and parse the two text columns.
\<close>

definition scan_project :: "row \<Rightarrow> error + Project" where
  "scan_project r =
     (let p = \<lparr>ID = col_id r, Name = col_name r, GitURL = col_git_url r, Branch = col_branch r,
                DeployType = col_deploy_type r, Image = col_image r, Domain = col_domain r,
                UseSubdomain = (col_use_subdomain r = 1), Port = col_port r, EnvVars = None,
                AutoDeploy = (col_auto_deploy r = 1), LastCommit = col_last_commit r,
                Status = col_status r, StatusMsg = col_status_msg r, ContainerIDs = None,
                CreatedAt = col_created_at r, UpdatedAt = col_updated_at r\<rparr>
      in case ParseEnvVars p (col_env_vars r) of
           Inl err \<Rightarrow> Inl (Errorf_w ''failed to parse env vars: '' err)
         | Inr p1 \<Rightarrow>
             (case ParseContainerIDs p1 (col_container_ids r) of
                Inl err \<Rightarrow> Inl (Errorf_w ''failed to parse container IDs: '' err)
              | Inr p2 \<Rightarrow> Inr p2))"

text \<open>
  The repository operations.  A Go result \<open>(nil, nil)\<close> of \<open>GetByID\<close> is \<open>Inr None\<close>; an
  operation that returns only an error returns \<open>None\<close> for \<open>nil\<close>, with the new database.
\<close>

definition GetByID :: "DB \<Rightarrow> string \<Rightarrow> error + Project option" where
  "GetByID db i =
     (case QueryRow db (\<lambda>r. col_id r = i) of
        Inl err \<Rightarrow>
          if err = ErrNoRows then Inr None else Inl (Errorf_w ''failed to get project: '' err)
      | Inr r \<Rightarrow> (case scan_project r of Inl err \<Rightarrow> Inl err | Inr p \<Rightarrow> Inr (Some p)))"

definition GetByName :: "DB \<Rightarrow> string \<Rightarrow> error + Project option" where
  "GetByName db n =
     (case QueryRow db (\<lambda>r. col_name r = n) of
        Inl err \<Rightarrow>
          if err = ErrNoRows then Inr None
          else Inl (Errorf_w ''failed to get project by name: '' err)
      | Inr r \<Rightarrow> (case scan_project r of Inl err \<Rightarrow> Inl err | Inr p \<Rightarrow> Inr (Some p)))"

text \<open>
  \<open>Update\<close> writes every column but \<open>id\<close> and \<open>created_at\<close> (and sets \<open>UpdatedAt\<close> in the
  caller's struct).  The statement fails when it would give the row a name that another
  row has.  Reading the number of affected rows does not fail.
\<close>

definition Update :: "DB \<Rightarrow> nat \<Rightarrow> Project \<Rightarrow> error option \<times> DB" where
  "Update db now p =
     (if fault db = None \<and> (\<exists>r \<in> set (projects db). col_id r = ID p)
         \<and> (\<exists>r \<in> set (projects db). col_id r \<noteq> ID p \<and> col_name r = Name p)
      then (Some (Errorf_w ''failed to update project: ''
                    (Err ''UNIQUE constraint failed: projects.name'')), db)
      else
        (case Exec_update db (ID p)
                (\<lambda>r. r\<lparr>col_name := Name p, col_git_url := GitURL p, col_branch := Branch p,
                        col_deploy_type := DeployType p, col_image := Image p,
                        col_domain := Domain p,
                        col_use_subdomain := (if UseSubdomain p then 1 else 0),
                        col_port := Port p, col_env_vars := EnvVarsJSON p,
                        col_auto_deploy := (if AutoDeploy p then 1 else 0),
                        col_last_commit := LastCommit p, col_status := Status p,
                        col_status_msg := StatusMsg p,
                        col_container_ids := ContainerIDsJSON p, col_updated_at := now\<rparr>) of
           Inl err \<Rightarrow> (Some (Errorf_w ''failed to update project: '' err), db)
         | Inr (rowsAffected, db') \<Rightarrow>
             if rowsAffected = 0 then (Some (Err ''project not found''), db') else (None, db')))"

definition UpdateStatus :: "DB \<Rightarrow> nat \<Rightarrow> string \<Rightarrow> ProjectStatus \<Rightarrow> string \<Rightarrow> error option \<times> DB" where
  "UpdateStatus db now i status statusMsg =
     (case Exec_update db i
             (\<lambda>r. r\<lparr>col_status := status, col_status_msg := statusMsg, col_updated_at := now\<rparr>) of
        Inl err \<Rightarrow> (Some (Errorf_w ''failed to update project status: '' err), db)
      | Inr (_, db') \<Rightarrow> (None, db'))"

definition UpdateContainerIDs :: "DB \<Rightarrow> nat \<Rightarrow> string \<Rightarrow> string list option \<Rightarrow> error option \<times> DB" where
  "UpdateContainerIDs db now i containerIDs =
     (case Exec_update db i
             (\<lambda>r. r\<lparr>col_container_ids :=
                        (case containerIDs of None \<Rightarrow> ''[]'' | Some xs \<Rightarrow> json_Marshal_strings xs),
                      col_updated_at := now\<rparr>) of
        Inl err \<Rightarrow> (Some (Errorf_w ''failed to update container IDs: '' err), db)
      | Inr (_, db') \<Rightarrow> (None, db'))"

definition UpdateLastCommit :: "DB \<Rightarrow> nat \<Rightarrow> string \<Rightarrow> string \<Rightarrow> error option \<times> DB" where
  "UpdateLastCommit db now i commit =
     (case Exec_update db i (\<lambda>r. r\<lparr>col_last_commit := commit, col_updated_at := now\<rparr>) of
        Inl err \<Rightarrow> (Some (Errorf_w ''failed to update last commit: '' err), db)
      | Inr (_, db') \<Rightarrow> (None, db'))"

definition Delete :: "DB \<Rightarrow> string \<Rightarrow> error option \<times> DB" where
  "Delete db i =
     (case Exec_delete db i of
        Inl err \<Rightarrow> (Some (Errorf_w ''failed to delete project: '' err), db)
      | Inr (rowsAffected, db') \<Rightarrow>
          if rowsAffected = 0 then (Some (Err ''project not found''), db') else (None, db'))"

section \<open>The orchestrator (request handlers) and the watcher\<close>

text \<open>
  The git manager, the compose manager and the Docker client are capability providers:
  what each call returns is given by the \<open>world\<close>, a function of the arguments: a call
  repeated with the same arguments within one run is answered as the first one was.
\<close>

record world =
  git_Exists :: "string \<Rightarrow> bool"
  git_Pull :: "string \<Rightarrow> string \<Rightarrow> string \<Rightarrow> error option"
  git_Clone :: "string \<Rightarrow> string \<Rightarrow> string \<Rightarrow> error option"
  git_GetLatestCommit :: "string \<Rightarrow> error + string"
  git_GetRemoteLatestCommit :: "string \<Rightarrow> string \<Rightarrow> string \<Rightarrow> error + string"
  compose_Up :: "Project \<Rightarrow> error option"
  compose_Restart :: "Project \<Rightarrow> error option"
  docker_PullImage :: "string \<Rightarrow> error option"
  docker_RunContainer :: "Project \<Rightarrow> error + string"
  docker_WaitForHealthy :: "string \<Rightarrow> error option"
  docker_RestartContainer :: "string \<Rightarrow> error option"




datatype response = InternalServerError | NotFound | Responded



text \<open>
  \<open>Handler.Restart\<close>: the response, the database and the lines logged.  In the image
  branch a container that fails to restart is logged and the loop goes on.
\<close>

definition restart_log :: "world \<Rightarrow> string list \<Rightarrow> string list" where
  "restart_log w containerIDs =
     concat (map (\<lambda>containerID.
                    case docker_RestartContainer w containerID of
                      Some err \<Rightarrow> [''Failed to restart container '' @ containerID @ '': '' @ Error err]
                    | None \<Rightarrow> [])
                 containerIDs)"

definition Restart :: "world \<Rightarrow> nat \<Rightarrow> DB \<Rightarrow> string \<Rightarrow> response \<times> DB \<times> string list" where
  "Restart w now db projectID =
     (case GetByID db projectID of
        Inl err \<Rightarrow> (InternalServerError, db, [''Failed to get project: '' @ Error err])
      | Inr None \<Rightarrow> (NotFound, db, [])
      | Inr (Some project) \<Rightarrow>
          if DeployType project = DeployTypeCompose then
            (case compose_Restart w project of
               Some err \<Rightarrow>
                 (Responded, snd (UpdateStatus db now (ID project) StatusError (Error err)),
                  [''Failed to restart compose project: '' @ Error err])
             | None \<Rightarrow> (Responded, snd (UpdateStatus db now (ID project) StatusRunning []), []))
          else
            (Responded, snd (UpdateStatus db now (ID project) StatusRunning []),
             restart_log w (case ContainerIDs project of None \<Rightarrow> [] | Some xs \<Rightarrow> xs)))"







section \<open>Properties of the store and the orchestrator\<close>

text \<open>
  The persisted status of a project: the \<open>status\<close> and \<open>status_msg\<close> columns of its row.  A
  database is \<open>healthy\<close> for an id when it has no fault and holds a row with that id.
\<close>

definition persisted :: "DB \<Rightarrow> string \<Rightarrow> (ProjectStatus \<times> string) option" where
  "persisted db i =
     map_option (\<lambda>r. (col_status r, col_status_msg r)) (find (\<lambda>r. col_id r = i) (projects db))"

definition healthy :: "DB \<Rightarrow> string \<Rightarrow> bool" where
  "healthy db i \<longleftrightarrow> fault db = None \<and> find (\<lambda>r. col_id r = i) (projects db) \<noteq> None"


text \<open>
  A database with the one project \<open>demo\<close>, which owns the container \<open>c1\<close>, and a world in
  which every call succeeds.
\<close>

definition demo_row :: row where
  "demo_row = \<lparr>col_id = ''p1'', col_name = ''demo'', col_git_url = [], col_branch = ''main'',
     col_deploy_type = ''image'', col_image = ''nginx:alpine'', col_domain = [],
     col_use_subdomain = 1, col_port = 80, col_env_vars = ''{}'', col_auto_deploy = 0,
     col_last_commit = [], col_status = ''pending'', col_status_msg = [],
     col_container_ids = [CHR ''['', CHR 0x22, CHR ''c'', CHR ''1'', CHR 0x22, CHR '']''],
     col_created_at = 0, col_updated_at = 0\<rparr>"

definition demo_db :: DB where
  "demo_db = \<lparr>projects = [demo_row], fault = None\<rparr>"

definition calm :: world where
  "calm = \<lparr>git_Exists = (\<lambda>_. True), git_Pull = (\<lambda>_ _ _. None), git_Clone = (\<lambda>_ _ _. None),
     git_GetLatestCommit = (\<lambda>_. Inr ''0123456789abcdef0123456789abcdef01234567''),
     git_GetRemoteLatestCommit = (\<lambda>_ _ _. Inr ''89abcdef0123456789abcdef0123456789abcdef''),
     compose_Up = (\<lambda>_. None), compose_Restart = (\<lambda>_. None),
     docker_PullImage = (\<lambda>_. None), docker_RunContainer = (\<lambda>_. Inr ''c2''),
     docker_WaitForHealthy = (\<lambda>_. None), docker_RestartContainer = (\<lambda>_. None)\<rparr>"

lemma find_map_id:
  "(\<And>r. col_id (g r) = col_id r) \<Longrightarrow>
   find (\<lambda>r. col_id r = i) (map g rs) = map_option g (find (\<lambda>r. col_id r = i) rs)"
  by (induction rs) auto

lemma Exec_update_healthy:
  assumes "fault db = None"
  shows "Exec_update db j f =
     Inr (length (filter (\<lambda>r. col_id r = j) (projects db)),
          db\<lparr>projects := map (\<lambda>r. if col_id r = j then f r else r) (projects db)\<rparr>)"
  using assms by (simp add: Exec_update_def)

lemma ParseEnvVars_ID: "ParseEnvVars p d = Inr p' \<Longrightarrow> ID p' = ID p"
  by (auto simp: ParseEnvVars_def split: if_splits sum.splits)

lemma ParseContainerIDs_ID: "ParseContainerIDs p d = Inr p' \<Longrightarrow> ID p' = ID p"
  by (auto simp: ParseContainerIDs_def split: if_splits sum.splits)

lemma scan_project_ID: "scan_project r = Inr p \<Longrightarrow> ID p = col_id r"
  by (auto simp: scan_project_def Let_def split: sum.splits
      dest!: ParseEnvVars_ID ParseContainerIDs_ID)

lemma GetByID_found:
  assumes "GetByID db i = Inr (Some p)"
  shows "healthy db i \<and> ID p = i"
proof -
  from assms obtain r where q: "QueryRow db (\<lambda>r. col_id r = i) = Inr r"
    and s: "scan_project r = Inr p"
    by (auto simp: GetByID_def split: sum.splits if_splits)
  from q have f: "fault db = None" and r: "find (\<lambda>r. col_id r = i) (projects db) = Some r"
    by (auto simp: QueryRow_def split: option.splits)
  from r have "col_id r = i"
    by (auto simp: find_Some_iff)
  with f r s scan_project_ID [OF s] show ?thesis
    by (simp add: healthy_def)
qed

lemma find_id: "find (\<lambda>r. col_id r = i) rs = Some r \<Longrightarrow> col_id r = i"
  by (auto simp: find_Some_iff)

lemma persisted_update:
  assumes "\<And>r. col_id (f r) = col_id r"
  shows "persisted (db\<lparr>projects := map (\<lambda>r. if col_id r = j then f r else r) (projects db)\<rparr>) i =
     (case find (\<lambda>r. col_id r = i) (projects db) of
        None \<Rightarrow> None
      | Some r \<Rightarrow> if i = j then Some (col_status (f r), col_status_msg (f r))
                  else Some (col_status r, col_status_msg r))"
proof -
  have "find (\<lambda>r. col_id r = i) (map (\<lambda>r. if col_id r = j then f r else r) (projects db)) =
      map_option (\<lambda>r. if col_id r = j then f r else r) (find (\<lambda>r. col_id r = i) (projects db))"
    by (rule find_map_id) (simp add: assms)
  then show ?thesis
    by (auto simp: persisted_def split: option.splits dest: find_id)
qed

lemma healthy_update:
  assumes "\<And>r. col_id (f r) = col_id r" and "healthy db i"
  shows "healthy (db\<lparr>projects := map (\<lambda>r. if col_id r = j then f r else r) (projects db)\<rparr>) i"
proof -
  have "find (\<lambda>r. col_id r = i) (map (\<lambda>r. if col_id r = j then f r else r) (projects db)) =
      map_option (\<lambda>r. if col_id r = j then f r else r) (find (\<lambda>r. col_id r = i) (projects db))"
    by (rule find_map_id) (simp add: assms)
  with assms(2) show ?thesis
    by (auto simp: healthy_def)
qed

lemma UpdateStatus_persisted:
  assumes "healthy db i"
  shows "persisted (snd (UpdateStatus db now i st msg)) i = Some (st, msg)"
    and "healthy (snd (UpdateStatus db now i st msg)) i"
proof -
  from assms have f: "fault db = None" by (simp add: healthy_def)
  from assms obtain r where r: "find (\<lambda>r. col_id r = i) (projects db) = Some r"
    by (auto simp: healthy_def)
  show "persisted (snd (UpdateStatus db now i st msg)) i = Some (st, msg)"
    by (simp add: UpdateStatus_def Exec_update_healthy [OF f] persisted_update r)
  show "healthy (snd (UpdateStatus db now i st msg)) i"
    using assms by (simp add: UpdateStatus_def Exec_update_healthy [OF f] healthy_update)
qed





lemma GetByID_demo:
  "GetByID demo_db ''p1'' =
     Inr (Some (demo\<lparr>Branch := ''main'', EnvVars := Some [], ContainerIDs := Some [''c1'']\<rparr>))"
  by code_simp













text \<open>
  A world in which the health wait, every container restart and every pull fail, and a
  project that tracks a git repository.
\<close>

definition stormy :: world where
  "stormy = calm\<lparr>docker_WaitForHealthy := (\<lambda>_. Some (Err ''container exited unexpectedly'')),
     docker_RestartContainer := (\<lambda>_. Some (Err ''No such container: c1'')),
     git_Pull := (\<lambda>_ _ _. Some (Err ''authentication required''))\<rparr>"












subsection \<open>Not found\<close>

text \<open>
  On a store without fault, \<open>GetByID\<close>, \<open>GetByName\<close>, \<open>Update\<close> and \<open>Delete\<close> report an id or
  name that no row has: the lookups by the result \<open>(nil, nil)\<close>, the two writes by the
  error \<open>project not found\<close>; a fault is reported by an error with another message.
\<close>

lemma not_found_reported:
  assumes "fault db = None" and "\<forall>r \<in> set (projects db). col_id r \<noteq> i"
  shows "GetByID db i = Inr None"
    and "ID p = i \<Longrightarrow> Update db now p = (Some (Err ''project not found''), db)"
    and "Delete db i = (Some (Err ''project not found''), db)"
proof -
  have nf: "find (\<lambda>r. col_id r = i) (projects db) = None"
    using assms(2) by (simp add: find_None_iff)
  have flt: "filter (\<lambda>r. col_id r = i) (projects db) = []"
    using assms(2) by (simp add: filter_empty_conv)
  have same: "map (\<lambda>r. if col_id r = i then f r else r) (projects db) = projects db" for f
    using assms(2) by (intro map_idI) auto
  have keep: "filter (\<lambda>r. col_id r \<noteq> i) (projects db) = projects db"
    using assms(2) by (simp add: filter_id_conv)
  show "GetByID db i = Inr None"
    using assms(1) nf by (simp add: GetByID_def QueryRow_def)
  show "Update db now p = (Some (Err ''project not found''), db)" if "ID p = i"
    using assms that flt same by (auto simp: Update_def Exec_update_def)
  show "Delete db i = (Some (Err ''project not found''), db)"
    using assms(1) flt keep by (simp add: Delete_def Exec_delete_def)
qed

lemma name_not_found_reported:
  assumes "fault db = None" and "\<forall>r \<in> set (projects db). col_name r \<noteq> n"
  shows "GetByName db n = Inr None"
proof -
  have "find (\<lambda>r. col_name r = n) (projects db) = None"
    using assms(2) by (simp add: find_None_iff)
  with assms(1) show ?thesis
    by (simp add: GetByName_def QueryRow_def)
qed

lemma store_failure_reported:
  assumes "fault db = Some e"
  shows "GetByID db i = Inl (Err (''failed to get project: '' @ e))"
    and "GetByName db n = Inl (Err (''failed to get project by name: '' @ e))"
    and "fst (Update db now p) = Some (Err (''failed to update project: '' @ e))"
    and "fst (Delete db i) = Some (Err (''failed to delete project: '' @ e))"
  using assms
  by (auto simp: GetByID_def GetByName_def QueryRow_def Delete_def Exec_delete_def Update_def
      Exec_update_def Errorf_w_def)

lemma silent_update_general:
  assumes "fault db = None" and "\<forall>r \<in> set (projects db). col_id r \<noteq> i"
  shows "UpdateStatus db now i st msg = (None, db)"
    and "UpdateLastCommit db now i c = (None, db)"
    and "UpdateContainerIDs db now i cs = (None, db)"
proof -
  have same: "map (\<lambda>r. if col_id r = i then f r else r) (projects db) = projects db" for f
    using assms(2) by (intro map_idI) auto
  show "UpdateStatus db now i st msg = (None, db)"
    using assms(1) same by (simp add: UpdateStatus_def Exec_update_def)
  show "UpdateLastCommit db now i c = (None, db)"
    using assms(1) same by (simp add: UpdateLastCommit_def Exec_update_def)
  show "UpdateContainerIDs db now i cs = (None, db)"
    using assms(1) same by (simp add: UpdateContainerIDs_def Exec_update_def)
qed


text \<open>
  \<open>UpdateStatus\<close>, \<open>UpdateLastCommit\<close> and \<open>UpdateContainerIDs\<close> do not read the number of
  affected rows: with an id that no row has they return \<open>nil\<close> and leave the database as
  it is.
\<close>

text \<open>
  Claim C3, where the code departs from it.  On the store that holds only project \<open>p1\<close>,
  the three partial updates with the id \<open>missing\<close> return no error, which is also what
  \<open>UpdateStatus\<close> returns for the id \<open>p1\<close>; \<open>Delete\<close> with the same missing id returns
  \<open>project not found\<close>.
\<close>

theorem UpdateStatus_missing_id_silent:
  "UpdateStatus demo_db 0 ''missing'' StatusRunning [] = (None, demo_db) \<and>
   UpdateLastCommit demo_db 0 ''missing'' ''0123456789abcdef0123456789abcdef01234567'' = (None, demo_db) \<and>
   UpdateContainerIDs demo_db 0 ''missing'' (Some [''c2'']) = (None, demo_db) \<and>
   fst (UpdateStatus demo_db 0 ''p1'' StatusRunning []) = None \<and>
   Delete demo_db ''missing'' = (Some (Err ''project not found''), demo_db)"
proof -
  have f: "fault demo_db = None" and
    m: "\<forall>r \<in> set (projects demo_db). col_id r \<noteq> ''missing''"
    by (simp_all add: demo_db_def demo_row_def)
  show ?thesis
    using silent_update_general [OF f m] not_found_reported(3) [OF f m]
    by (simp add: UpdateStatus_def Exec_update_def demo_db_def)
qed


subsection \<open>Restart\<close>

text \<open>
  For a compose project \<open>Restart\<close> persists \<open>running\<close> when the compose manager restarts it
  and \<open>error\<close> with the message when it does not, whatever the status was.  For any other
  project it persists \<open>running\<close> whatever the container restarts return.
\<close>

lemma Restart_compose:
  assumes "GetByID db i = Inr (Some p)" and "DeployType p = DeployTypeCompose"
  shows "persisted (fst (snd (Restart w now db i))) i =
     (case compose_Restart w p of
        None \<Rightarrow> Some (StatusRunning, [])
      | Some err \<Rightarrow> Some (StatusError, Error err))"
proof -
  from GetByID_found [OF assms(1)] have h: "healthy db (ID p)" and i: "ID p = i" by simp_all
  show ?thesis
    using assms UpdateStatus_persisted(1) [OF h]
    by (auto simp: Restart_def i split: option.splits)
qed

lemma Restart_image:
  assumes "GetByID db i = Inr (Some p)" and "DeployType p \<noteq> DeployTypeCompose"
  shows "persisted (fst (snd (Restart w now db i))) i = Some (StatusRunning, [])"
proof -
  from GetByID_found [OF assms(1)] have h: "healthy db (ID p)" and i: "ID p = i" by simp_all
  show ?thesis
    using assms UpdateStatus_persisted(1) [OF h]
    by (auto simp: Restart_def i split: option.splits)
qed


text \<open>
  Claim C1, where the code departs from it.  Project \<open>p1\<close> is an image project that owns
  container \<open>c1\<close>; in the world where restarting \<open>c1\<close> fails, \<open>Restart\<close> logs the failure and
  persists the status \<open>running\<close> with an empty message.
\<close>

theorem Restart_image_failure_marked_running:
  "docker_RestartContainer stormy ''c1'' = Some (Err ''No such container: c1'') \<and>
   persisted (fst (snd (Restart stormy 0 demo_db ''p1''))) ''p1'' = Some (StatusRunning, []) \<and>
   snd (snd (Restart stormy 0 demo_db ''p1'')) =
     [''Failed to restart container c1: No such container: c1'']"
proof -
  have "DeployType (demo\<lparr>Branch := ''main'', EnvVars := Some [], ContainerIDs := Some [''c1'']\<rparr>)
      \<noteq> DeployTypeCompose"
    by (simp add: demo_def DeployTypeImage_def DeployTypeCompose_def)
  from Restart_image [OF GetByID_demo this, of stormy 0] show ?thesis
    by (simp add: Restart_def GetByID_demo demo_def DeployTypeImage_def DeployTypeCompose_def
        restart_log_def stormy_def calm_def)
qed


subsection \<open>The watcher\<close>






section \<open>Compose documents and label injection\<close>

text \<open>
  The dynamic values a field of type \<open>interface{}\<close> holds after \<open>yaml.Unmarshal\<close> (\<open>nil\<close>,
  scalars, \<open>[]interface{}\<close>, \<open>map[string]interface{}\<close>), the two typed forms \<open>InjectLabels\<close>
  itself stores (\<open>[]string\<close>, \<open>map[string]string\<close>), and \<open>IOther\<close> for a value of any other
  type.  A map is an association list; the order of its entries is the order in which a
  \<open>range\<close> over it yields them.
\<close>

datatype iface =
    INil
  | IString string
  | IInt int
  | IBool bool
  | IOther string
  | ISlice "iface list"
  | IMap "(string \<times> iface) list"
  | IStrSlice "string list"
  | IStrMap "(string \<times> string) list"

text \<open>
  \<open>ComposeService\<close> and \<open>ComposeFile\<close>.  Of a service, \<open>InjectLabels\<close> reads and writes the
  fields \<open>Networks\<close> and \<open>Labels\<close>; the other fields of the struct are the extension of the
  record, which every update carries along.  In this section documents are values, as
  the YAML decoder builds them: two services share no map.  A nil map reads as the empty
  map.
\<close>

record ComposeService =
  service_Networks :: iface
  service_Labels :: iface

record 'a ComposeFile =
  Version :: string
  Services :: "(string \<times> 'a ComposeService_scheme) list"
  Networks :: "(string \<times> iface) list"
  Volumes :: "(string \<times> iface) list"

record ComposeManager =
  baseDomain :: string
  deploymentsDir :: string

definition NetworkName :: string where "NetworkName = ''slimdeploy''"
definition LabelPrefix :: string where "LabelPrefix = ''slimdeploy''"

text \<open>\<open>strings.SplitN(s, sep, 2)\<close> for a separator of one byte.\<close>

definition strings_SplitN2 :: "string \<Rightarrow> char \<Rightarrow> string list" where
  "strings_SplitN2 s sep =
     (if sep \<in> set s
      then [takeWhile (\<lambda>c. c \<noteq> sep) s, drop 1 (dropWhile (\<lambda>c. c \<noteq> sep) s)]
      else [s])"

definition getLabelsAsMap :: "iface \<Rightarrow> labels" where
  "getLabelsAsMap labels =
     (case labels of
        INil \<Rightarrow> []
      | IStrMap l \<Rightarrow> l
      | IMap l \<Rightarrow>
          fold (\<lambda>kv result. case snd kv of IString s \<Rightarrow> AList.update (fst kv) s result
                             | _ \<Rightarrow> result) l []
      | ISlice l \<Rightarrow>
          fold (\<lambda>item result.
                  case item of
                    IString s \<Rightarrow>
                      (let parts = strings_SplitN2 s CHR ''=''
                       in if length parts = 2 then AList.update (parts ! 0) (parts ! 1) result
                          else if length parts = 1 then AList.update (parts ! 0) [] result
                          else result)
                  | _ \<Rightarrow> result) l []
      | _ \<Rightarrow> [])"

definition getNetworksAsList :: "iface \<Rightarrow> string list" where
  "getNetworksAsList networks =
     (case networks of
        INil \<Rightarrow> []
      | IStrSlice n \<Rightarrow> n
      | ISlice n \<Rightarrow> concat (map (\<lambda>item. case item of IString s \<Rightarrow> [s] | _ \<Rightarrow> []) n)
      | IMap n \<Rightarrow> map fst n
      | _ \<Rightarrow> [])"

text \<open>
  \<open>findMainService\<close>.  Its last loop returns the first name that a \<open>range\<close> over the
  services yields; the order in which this one \<open>range\<close> yields the names is the
  parameter \<open>order\<close> (Go fixes no order, and two loops over one map may differ).
\<close>

definition mainCandidates :: "string list" where
  "mainCandidates = [''app'', ''web'', ''api'', ''server'', ''frontend'', ''backend'', ''nginx'']"

definition findMainService :: "'a ComposeFile \<Rightarrow> string list \<Rightarrow> string" where
  "findMainService compose order =
     (case find (\<lambda>candidate. candidate \<in> fst ` set (Services compose)) mainCandidates of
        Some candidate \<Rightarrow> candidate
      | None \<Rightarrow> (case order of name # _ \<Rightarrow> name | [] \<Rightarrow> []))"

text \<open>
  The condition under which a service gets the routing labels.  \<open>orders name\<close> is the
  order of the \<open>range\<close> in the call of \<open>findMainService\<close> made for the service \<open>name\<close>.
\<close>

definition is_main ::
    "'a ComposeFile \<Rightarrow> (string \<Rightarrow> string list) \<Rightarrow> string \<Rightarrow> string \<Rightarrow> bool" where
  "is_main compose orders mainService name \<longleftrightarrow>
     name = mainService \<or> (mainService = [] \<and> name = findMainService compose (orders name))"

text \<open>The body of the loop over the services of \<open>InjectLabels\<close>.\<close>

definition inject_service ::
    "ComposeManager \<Rightarrow> (nat \<Rightarrow> nat) \<Rightarrow> (string \<Rightarrow> string list) \<Rightarrow> Project \<Rightarrow> 'a ComposeFile \<Rightarrow>
     string \<Rightarrow> string \<Rightarrow> 'a ComposeService_scheme \<Rightarrow> 'a ComposeService_scheme" where
  "inject_service cm lc orders project compose mainService name service =
     (let networks = getNetworksAsList (service_Networks service);
          networks = (if NetworkName \<in> set networks then networks else networks @ [NetworkName]);
          labels = getLabelsAsMap (service_Labels service);
          labelsToRemove =
            filter (\<lambda>k. strings_HasPrefix k ''traefik.'' \<and> k \<noteq> ''traefik.enable'') (map fst labels);
          labels = fold AList.delete labelsToRemove labels;
          labels = AList.update (LabelPrefix @ ''.managed'') ''true'' labels;
          labels = AList.update (LabelPrefix @ ''.project'') (ID project) labels;
          labels =
            (if is_main compose orders mainService name
             then fold (\<lambda>kv ls. AList.update (fst kv) (snd kv) ls)
                    (GenerateTraefikLabelsForCompose lc project (baseDomain cm) name) labels
             else labels)
      in service\<lparr>service_Networks := IStrSlice networks, service_Labels := IStrMap labels\<rparr>)"

definition InjectLabels ::
    "ComposeManager \<Rightarrow> (nat \<Rightarrow> nat) \<Rightarrow> (string \<Rightarrow> string list) \<Rightarrow> Project \<Rightarrow> 'a ComposeFile \<Rightarrow>
     string \<Rightarrow> 'a ComposeFile" where
  "InjectLabels cm lc orders project compose mainService =
     compose\<lparr>Services :=
               map (\<lambda>entry. (fst entry,
                      inject_service cm lc orders project compose mainService (fst entry) (snd entry)))
                 (Services compose),
             Networks :=
               AList.update NetworkName (IMap [(''external'', IBool True)]) (Networks compose)\<rparr>"

text \<open>
  What the claim about the injected labels says of one service of the result: it carries
  the two management labels; every \<open>traefik.\<close> label it carries, the enable flag apart, is
  a routing label generated for it, and it has them only if it is the main service; and
  the main service carries every generated routing label.
\<close>

definition injected ::
    "ComposeManager \<Rightarrow> (nat \<Rightarrow> nat) \<Rightarrow> Project \<Rightarrow> bool \<Rightarrow> string \<Rightarrow> 'a ComposeService_scheme \<Rightarrow> bool" where
  "injected cm lc project main name svc \<longleftrightarrow>
     (\<exists>L. service_Labels svc = IStrMap L \<and>
        map_of L ''slimdeploy.managed'' = Some ''true'' \<and>
        map_of L ''slimdeploy.project'' = Some (ID project) \<and>
        (\<forall>k v. map_of L k = Some v \<and> prefix ''traefik.'' k \<and> k \<noteq> ''traefik.enable'' \<longrightarrow>
           main \<and> map_of (GenerateTraefikLabelsForCompose lc project (baseDomain cm) name) k = Some v) \<and>
        (main \<longrightarrow>
           (\<forall>k v. map_of (GenerateTraefikLabelsForCompose lc project (baseDomain cm) name) k = Some v
              \<longrightarrow> map_of L k = Some v)))"

text \<open>The names of the services that get the routing labels.\<close>

definition main_services ::
    "'a ComposeFile \<Rightarrow> (string \<Rightarrow> string list) \<Rightarrow> string \<Rightarrow> string list" where
  "main_services compose orders mainService =
     filter (is_main compose orders mainService) (map fst (Services compose))"


text \<open>A compose manager and a document with the services \<open>db\<close> and \<open>web\<close>.\<close>

definition manager :: ComposeManager where
  "manager = \<lparr>baseDomain = ''example.com'', deploymentsDir = ''/deployments''\<rparr>"

definition stack :: "unit ComposeFile" where
  "stack = \<lparr>Version = ''3'',
     Services =
       [(''db'', \<lparr>service_Networks = INil, service_Labels = INil\<rparr>),
        (''web'', \<lparr>service_Networks = ISlice [IString ''backend''],
                   service_Labels =
                     IMap [(''traefik.http.routers.old.rule'', IString ''Host(`old.example.org`)''),
                           (''traefik.enable'', IString ''false''),
                           (''tier'', IString ''front'')]\<rparr>)],
     Networks = [(''backend'', INil)], Volumes = []\<rparr>"

subsection \<open>Properties of label injection\<close>

lemma map_of_fold_delete:
  "map_of (fold AList.delete ks al) k = (if k \<in> set ks then None else map_of al k)"
  by (induction ks arbitrary: al) (auto simp: delete_conv')

lemma routerLabels_distinct: "distinct (map fst (routerLabels rn d port))"
  by (simp add: routerLabels_def Let_def distinct_update)

lemma compose_labels_distinct:
  "distinct (map fst (GenerateTraefikLabelsForCompose lc p bd name))"
  by (simp add: GenerateTraefikLabelsForCompose_def Let_def routerLabels_distinct)

lemma routerLabels_keys: "(k, v) \<in> set (routerLabels rn d port) \<Longrightarrow> prefix ''traefik.'' k"
  by (cases "isLocal d") (auto simp: routerLabels_local routerLabels_public)

lemma compose_labels_keys:
  "map_of (GenerateTraefikLabelsForCompose lc p bd name) k = Some v \<Longrightarrow> prefix ''traefik.'' k"
  by (auto simp: GenerateTraefikLabelsForCompose_def Let_def split: if_splits
      dest!: map_of_SomeD dest: routerLabels_keys)

text \<open>The labels of a service after the loop body, key by key.\<close>

lemma inject_service_labels:
  fixes service :: "'a ComposeService_scheme"
  shows "\<exists>L. service_Labels (inject_service cm lc orders project compose mainService name service)
        = IStrMap L \<and>
     (\<forall>k. map_of L k =
        (if is_main compose orders mainService name \<and> map_of (GenerateTraefikLabelsForCompose lc project (baseDomain cm) name) k \<noteq> None
         then map_of (GenerateTraefikLabelsForCompose lc project (baseDomain cm) name) k
         else if k = ''slimdeploy.project'' then Some (ID project)
         else if k = ''slimdeploy.managed'' then Some ''true''
         else if prefix ''traefik.'' k \<and> k \<noteq> ''traefik.enable'' then None
         else map_of (getLabelsAsMap (service_Labels service)) k))"
proof -
  define L0 where "L0 = getLabelsAsMap (service_Labels service)"
  have none: "map_of L0 k = None" if "k \<notin> fst ` set L0" for k
    using that by (simp add: map_of_eq_None_iff)
  show ?thesis
    unfolding inject_service_def Let_def L0_def [symmetric]
    by (auto simp: map_of_fold_update map_of_fold_delete update_conv' LabelPrefix_def
        strings_HasPrefix_def map_of_rev_distinct [OF compose_labels_distinct] none
        split: option.splits)
qed


lemma inject_service_injected:
  "injected cm lc project (is_main compose orders mainService name) name
     (inject_service cm lc orders project compose mainService name service)"
proof -
  obtain L where L: "service_Labels (inject_service cm lc orders project compose mainService name service)
        = IStrMap L"
    and m: "\<And>k. map_of L k =
        (if is_main compose orders mainService name \<and>
            map_of (GenerateTraefikLabelsForCompose lc project (baseDomain cm) name) k \<noteq> None
         then map_of (GenerateTraefikLabelsForCompose lc project (baseDomain cm) name) k
         else if k = ''slimdeploy.project'' then Some (ID project)
         else if k = ''slimdeploy.managed'' then Some ''true''
         else if prefix ''traefik.'' k \<and> k \<noteq> ''traefik.enable'' then None
         else map_of (getLabelsAsMap (service_Labels service)) k)"
    using inject_service_labels [of cm lc orders project compose mainService name service] by blast
  have g: "map_of (GenerateTraefikLabelsForCompose lc project (baseDomain cm) name) k = None"
    if "\<not> prefix ''traefik.'' k" for k
    using compose_labels_keys [of lc project "baseDomain cm" name k] that
    by (cases "map_of (GenerateTraefikLabelsForCompose lc project (baseDomain cm) name) k") auto
  have 1: "map_of L ''slimdeploy.managed'' = Some ''true''"
    by (simp add: m g)
  have 2: "map_of L ''slimdeploy.project'' = Some (ID project)"
    by (simp add: m g)
  have 3: "is_main compose orders mainService name \<and>
      map_of (GenerateTraefikLabelsForCompose lc project (baseDomain cm) name) k = Some v"
    if "map_of L k = Some v" "prefix ''traefik.'' k" "k \<noteq> ''traefik.enable''" for k v
    using that by (auto simp: m split: if_splits)
  have 4: "map_of L k = Some v"
    if "is_main compose orders mainService name"
      "map_of (GenerateTraefikLabelsForCompose lc project (baseDomain cm) name) k = Some v" for k v
    using that by (simp add: m)
  show ?thesis
    unfolding injected_def using L 1 2 3 4 by blast
qed

lemma filter_eq_single: "distinct xs \<Longrightarrow> x \<in> set xs \<Longrightarrow> filter (\<lambda>y. y = x) xs = [x]"
  by (induction xs) (auto simp: filter_empty_conv)

lemma filter_key_single:
  "distinct (map fst es) \<Longrightarrow> x \<in> fst ` set es \<Longrightarrow> filter (\<lambda>y. y = x) (map fst es) = [x]"
  using filter_eq_single [of "map fst es" x] by simp

lemma filter_key_none: "x \<notin> fst ` set es \<Longrightarrow> filter (\<lambda>y. y = x) (map fst es) = []"
  by (auto simp: filter_empty_conv)

lemma findMainService_candidate:
  "find (\<lambda>c. c \<in> fst ` set (Services compose)) mainCandidates = Some c \<Longrightarrow>
   findMainService compose order = c \<and> c \<in> fst ` set (Services compose)"
proof -
  assume a: "find (\<lambda>c. c \<in> fst ` set (Services compose)) mainCandidates = Some c"
  then have "findMainService compose order = c"
    by (simp add: findMainService_def)
  moreover from a have "c \<in> fst ` set (Services compose)"
    by (auto simp: find_Some_iff)
  ultimately show ?thesis by simp
qed


text \<open>
  What holds of every call.  For every project and every compose document (a map: the
  service names are distinct), the result has the same services; every service carries
  \<open>managed=true\<close> and \<open>project=<id>\<close>; a \<open>traefik.\<close> label other than the enable flag is on a
  service only if the service is selected as main and the label is one generated for it,
  and the selected service carries all of them.  With an override the selected services
  are the one named by the override, or none when the document has no such service.
  Without an override (and no service with the empty name), the selected service is the
  first match in the priority list, or else the service every enumeration of the
  services starts with.
\<close>

lemma InjectLabels_selected:
  fixes compose :: "'a ComposeFile"
  assumes "distinct (map fst (Services compose))"
  shows
   "map fst (Services (InjectLabels cm lc orders project compose mainService)) =
      map fst (Services compose) \<and>
    (\<forall>e \<in> set (Services (InjectLabels cm lc orders project compose mainService)).
       injected cm lc project (is_main compose orders mainService (fst e)) (fst e) (snd e)) \<and>
    (mainService \<noteq> [] \<longrightarrow>
       main_services compose orders mainService =
         (if mainService \<in> fst ` set (Services compose) then [mainService] else [])) \<and>
    (mainService = [] \<and> [] \<notin> fst ` set (Services compose) \<longrightarrow>
       (\<forall>c. find (\<lambda>c. c \<in> fst ` set (Services compose)) mainCandidates = Some c \<longrightarrow>
          main_services compose orders mainService = [c]) \<and>
       (\<forall>first. find (\<lambda>c. c \<in> fst ` set (Services compose)) mainCandidates = None \<and>
          first \<in> fst ` set (Services compose) \<and>
          (\<forall>n \<in> fst ` set (Services compose). \<exists>rest. orders n = first # rest) \<longrightarrow>
          main_services compose orders mainService = [first]))"
proof -
  let ?keys = "map fst (Services compose)"
  have k: "set ?keys = fst ` set (Services compose)" by simp
  have 1: "map fst (Services (InjectLabels cm lc orders project compose mainService)) = ?keys"
    by (simp add: InjectLabels_def comp_def)
  have 2: "\<forall>e \<in> set (Services (InjectLabels cm lc orders project compose mainService)).
       injected cm lc project (is_main compose orders mainService (fst e)) (fst e) (snd e)"
    by (auto simp: InjectLabels_def inject_service_injected)
  have 3: "main_services compose orders mainService =
         (if mainService \<in> fst ` set (Services compose) then [mainService] else [])"
    if "mainService \<noteq> []"
  proof -
    have "is_main compose orders mainService = (\<lambda>n. n = mainService)"
      using that by (auto simp: is_main_def fun_eq_iff)
    then have "main_services compose orders mainService = filter (\<lambda>n. n = mainService) ?keys"
      by (simp add: main_services_def)
    then show ?thesis
      using filter_key_single [OF assms, of mainService] filter_key_none [of mainService]
      by (cases "mainService \<in> fst ` set (Services compose)") simp_all
  qed
  have 4: "main_services compose orders mainService = [c]"
    if "mainService = []" "[] \<notin> fst ` set (Services compose)"
      "find (\<lambda>c. c \<in> fst ` set (Services compose)) mainCandidates = Some c" for c
  proof -
    from findMainService_candidate [OF that(3)] have
      f: "\<And>order. findMainService compose order = c"
      and c: "c \<in> fst ` set (Services compose)" by simp_all
    have "filter (is_main compose orders []) ?keys = filter (\<lambda>n. n = c) ?keys"
      using that(2) by (intro filter_cong) (force simp: is_main_def f)+
    with filter_key_single [OF assms c] that(1) show ?thesis
      by (simp add: main_services_def)
  qed
  have 5: "main_services compose orders mainService = [first]"
    if "mainService = []" "[] \<notin> fst ` set (Services compose)"
      "find (\<lambda>c. c \<in> fst ` set (Services compose)) mainCandidates = None"
      "first \<in> fst ` set (Services compose)"
      "\<forall>n \<in> fst ` set (Services compose). \<exists>rest. orders n = first # rest" for first
  proof -
    have f: "findMainService compose (orders n) = first" if "n \<in> set ?keys" for n
      using that \<open>\<forall>n \<in> fst ` set (Services compose). \<exists>rest. orders n = first # rest\<close>
        \<open>find (\<lambda>c. c \<in> fst ` set (Services compose)) mainCandidates = None\<close>
      by (auto simp: findMainService_def)
    have "filter (is_main compose orders []) ?keys = filter (\<lambda>n. n = first) ?keys"
      using that(2) by (intro filter_cong) (force simp: is_main_def f)+
    with filter_key_single [OF assms that(4)] that(1) show ?thesis
      by (simp add: main_services_def)
  qed
  from 1 2 3 4 5 show ?thesis by blast
qed


lemma InjectLabels_selected_stack:
  "map fst (Services (InjectLabels manager (\<lambda>r. r) (\<lambda>_. [''db'', ''web'']) demo stack [])) =
     [''db'', ''web''] \<and>
   main_services stack (\<lambda>_. [''db'', ''web'']) [] = [''web''] \<and>
   main_services stack (\<lambda>_. [''db'', ''web'']) ''db'' = [''db'']"
  using InjectLabels_selected [of stack manager "\<lambda>r. r" "\<lambda>_. [''db'', ''web'']" demo "[]"]
    InjectLabels_selected [of stack manager "\<lambda>r. r" "\<lambda>_. [''db'', ''web'']" demo "''db''"]
  by (simp add: stack_def mainCandidates_def)


text \<open>
  An override that names no service.  Project \<open>demo\<close> has the effective domain
  \<open>demo.example.com\<close>; with the override \<open>api\<close>, which names no service of the document, no service is
  selected: \<open>db\<close> and \<open>web\<close> come out with the management labels, \<open>web\<close> keeps its enable
  flag and its own label \<open>tier\<close>, its old router label is gone, and no service carries a
  routing label.
\<close>

lemma InjectLabels_unknown_override:
  "GetEffectiveDomain demo (baseDomain manager) = ''demo.example.com'' \<and>
   main_services stack (\<lambda>_. [''db'', ''web'']) ''api'' = [] \<and>
   map (\<lambda>e. (fst e, service_Labels (snd e)))
     (Services (InjectLabels manager (\<lambda>r. r) (\<lambda>_. [''db'', ''web'']) demo stack ''api'')) =
     [(''db'', IStrMap [(''slimdeploy.managed'', ''true''), (''slimdeploy.project'', ''p1'')]),
      (''web'', IStrMap [(''traefik.enable'', ''false''), (''tier'', ''front''),
                         (''slimdeploy.managed'', ''true''), (''slimdeploy.project'', ''p1'')])]"
  by (simp add: InjectLabels_def inject_service_def main_services_def is_main_def stack_def
      manager_def demo_def GetEffectiveDomain_def getLabelsAsMap_def getNetworksAsList_def
      strings_HasPrefix_def LabelPrefix_def NetworkName_def Let_def)


text \<open>
  A document with the services \<open>one\<close> and \<open>two\<close>, neither a conventional name, and the
  names of the services of a document that carry a label of a router.
\<close>

definition pair :: "unit ComposeFile" where
  "pair = \<lparr>Version = ''3'',
     Services = [(''one'', \<lparr>service_Networks = INil, service_Labels = INil\<rparr>),
                 (''two'', \<lparr>service_Networks = INil, service_Labels = INil\<rparr>)],
     Networks = [], Volumes = []\<rparr>"

definition routed :: "'a ComposeFile \<Rightarrow> string list" where
  "routed compose =
     map fst (filter (\<lambda>entry. list_ex (prefix ''traefik.http.routers.'')
                               (map fst (getLabelsAsMap (service_Labels (snd entry)))))
                (Services compose))"

lemma compose_labels_one:
  "GenerateTraefikLabelsForCompose lc demo ''example.com'' ''one'' =
     [(''traefik.enable'', ''true''),
      (''traefik.http.services.demo-one.loadbalancer.server.port'', ''80''),
      (''traefik.docker.network'', ''slimdeploy''),
      (''traefik.http.routers.demo-one-http.rule'', ''Host(`demo.example.com`)''),
      (''traefik.http.routers.demo-one-http.entrypoints'', ''web''),
      (''traefik.http.routers.demo-one-http.middlewares'', ''redirect-to-https@docker''),
      (''traefik.http.routers.demo-one.rule'', ''Host(`demo.example.com`)''),
      (''traefik.http.routers.demo-one.entrypoints'', ''websecure''),
      (''traefik.http.routers.demo-one.tls.certresolver'', ''letsencrypt'')]"
proof -
  have n: "sanitizeRouterName lc ''demo-one'' = ''demo-one''"
    by (rule sanitizeRouterName_fixed)
      (simp_all add: is_router_char_def sublist_code suffix_to_prefix)
  have "\<not> isLocal ''demo.example.com''"
    by (simp add: isLocal_def strings_HasSuffix_def suffix_to_prefix)
  from routerLabels_public [OF this, of "''demo-one''" 80] show ?thesis
    by (simp add: GenerateTraefikLabelsForCompose_def GetEffectiveDomain_def demo_def n fmt_d_80)
qed

lemma compose_labels_two:
  "GenerateTraefikLabelsForCompose lc demo ''example.com'' ''two'' =
     [(''traefik.enable'', ''true''),
      (''traefik.http.services.demo-two.loadbalancer.server.port'', ''80''),
      (''traefik.docker.network'', ''slimdeploy''),
      (''traefik.http.routers.demo-two-http.rule'', ''Host(`demo.example.com`)''),
      (''traefik.http.routers.demo-two-http.entrypoints'', ''web''),
      (''traefik.http.routers.demo-two-http.middlewares'', ''redirect-to-https@docker''),
      (''traefik.http.routers.demo-two.rule'', ''Host(`demo.example.com`)''),
      (''traefik.http.routers.demo-two.entrypoints'', ''websecure''),
      (''traefik.http.routers.demo-two.tls.certresolver'', ''letsencrypt'')]"
proof -
  have n: "sanitizeRouterName lc ''demo-two'' = ''demo-two''"
    by (rule sanitizeRouterName_fixed)
      (simp_all add: is_router_char_def sublist_code suffix_to_prefix)
  have "\<not> isLocal ''demo.example.com''"
    by (simp add: isLocal_def strings_HasSuffix_def suffix_to_prefix)
  from routerLabels_public [OF this, of "''demo-two''" 80] show ?thesis
    by (simp add: GenerateTraefikLabelsForCompose_def GetEffectiveDomain_def demo_def n fmt_d_80)
qed

text \<open>
  Claim C5, where the code departs from it.  \<open>Up\<close> calls \<open>InjectLabels\<close> without an override.  For the
  document \<open>pair\<close> and the project \<open>demo\<close> (effective domain \<open>demo.example.com\<close>), the loop
  calls \<open>findMainService\<close> once for \<open>one\<close> and once for \<open>two\<close>, and each call returns the
  first name its own \<open>range\<close> over the services yields.  When both enumerations start
  with the same name, that service alone gets the router labels.  When the enumeration
  made for \<open>one\<close> starts with \<open>one\<close> and the one made for \<open>two\<close> starts with \<open>two\<close>, both
  services get router labels; when each starts with the other name, no service does.
\<close>

theorem InjectLabels_main_service_unstable:
  "findMainService pair [''one'', ''two''] = ''one'' \<and>
   findMainService pair [''two'', ''one''] = ''two'' \<and>
   routed (InjectLabels manager (\<lambda>r. r) (\<lambda>name. [''one'', ''two'']) demo pair []) = [''one''] \<and>
   routed (InjectLabels manager (\<lambda>r. r)
             (\<lambda>name. if name = ''one'' then [''one'', ''two''] else [''two'', ''one''])
             demo pair []) = [''one'', ''two''] \<and>
   routed (InjectLabels manager (\<lambda>r. r)
             (\<lambda>name. if name = ''one'' then [''two'', ''one''] else [''one'', ''two''])
             demo pair []) = []"
  by (simp add: routed_def InjectLabels_def inject_service_def is_main_def findMainService_def
      mainCandidates_def pair_def manager_def compose_labels_one compose_labels_two
      getLabelsAsMap_def getNetworksAsList_def strings_HasPrefix_def LabelPrefix_def
      NetworkName_def Let_def)

section \<open>Label injection on the heap\<close>

text \<open>
  Go maps are references: a copy of a struct shares the maps its fields point to.  Here
  the maps live in a heap, a list of objects addressed by position; \<open>make\<close> and a map
  literal allocate at the end.  A slice is kept as a value: \<open>InjectLabels\<close> only reads
  slices and appends to them, which changes no element a caller can see.  The struct
  \<open>*compose\<close> is passed as a value, since the function copies it first and writes only to
  the copy; the result is the struct \<open>modified\<close> and the heap after the call.
\<close>

type_synonym addr = nat

datatype hval =
    HNil
  | HString string
  | HInt int
  | HBool bool
  | HOther string
  | HSlice "hval list"
  | HStrSlice "string list"
  | HMapRef addr
  | HStrMapRef addr

record HService =
  h_Networks :: hval
  h_Labels :: hval

datatype 'a obj =
    OMap "(string \<times> hval) list"
  | OStrMap "(string \<times> string) list"
  | OServices "(string \<times> 'a HService_scheme) list"

type_synonym 'a heap = "'a obj list"

record HComposeFile =
  h_Version :: string
  h_Services :: "addr option"
  h_FileNetworks :: "addr option"
  h_Volumes :: "addr option"

definition alloc :: "'a obj \<Rightarrow> 'a heap \<Rightarrow> addr \<times> 'a heap" where
  "alloc ob h = (length h, h @ [ob])"

definition map_at :: "'a heap \<Rightarrow> addr \<Rightarrow> (string \<times> hval) list" where
  "map_at h a = (if a < length h then (case h ! a of OMap m \<Rightarrow> m | _ \<Rightarrow> []) else [])"

definition strmap_at :: "'a heap \<Rightarrow> addr \<Rightarrow> (string \<times> string) list" where
  "strmap_at h a = (if a < length h then (case h ! a of OStrMap m \<Rightarrow> m | _ \<Rightarrow> []) else [])"

definition services_at :: "'a heap \<Rightarrow> addr \<Rightarrow> (string \<times> 'a HService_scheme) list" where
  "services_at h a = (if a < length h then (case h ! a of OServices m \<Rightarrow> m | _ \<Rightarrow> []) else [])"

text \<open>
  \<open>getLabelsAsMap\<close>: the address of the map it returns.  For a \<open>map[string]string\<close> that is
  the argument's own map; in every other case it is the new map \<open>result\<close>.
\<close>

definition getLabelsAsMap_h :: "hval \<Rightarrow> 'a heap \<Rightarrow> addr \<times> 'a heap" where
  "getLabelsAsMap_h labels h =
     (case labels of
        HStrMapRef a \<Rightarrow> (a, h)
      | HMapRef a \<Rightarrow>
          alloc (OStrMap
                   (fold (\<lambda>kv result. case snd kv of HString s \<Rightarrow> AList.update (fst kv) s result
                                      | _ \<Rightarrow> result) (map_at h a) [])) h
      | HSlice l \<Rightarrow>
          alloc (OStrMap
                   (fold (\<lambda>item result.
                            case item of
                              HString s \<Rightarrow>
                                (let parts = strings_SplitN2 s CHR ''=''
                                 in if length parts = 2
                                    then AList.update (parts ! 0) (parts ! 1) result
                                    else if length parts = 1
                                    then AList.update (parts ! 0) [] result
                                    else result)
                            | _ \<Rightarrow> result) l [])) h
      | _ \<Rightarrow> alloc (OStrMap []) h)"

definition getNetworksAsList_h :: "hval \<Rightarrow> 'a heap \<Rightarrow> string list" where
  "getNetworksAsList_h networks h =
     (case networks of
        HStrSlice n \<Rightarrow> n
      | HSlice n \<Rightarrow> concat (map (\<lambda>item. case item of HString s \<Rightarrow> [s] | _ \<Rightarrow> []) n)
      | HMapRef a \<Rightarrow> map fst (map_at h a)
      | _ \<Rightarrow> [])"

definition findMainService_h :: "'a heap \<Rightarrow> HComposeFile \<Rightarrow> string list \<Rightarrow> string" where
  "findMainService_h h compose order =
     (let services = (case h_Services compose of None \<Rightarrow> [] | Some a \<Rightarrow> services_at h a)
      in case find (\<lambda>candidate. candidate \<in> fst ` set services) mainCandidates of
           Some candidate \<Rightarrow> candidate
         | None \<Rightarrow> (case order of name # _ \<Rightarrow> name | [] \<Rightarrow> []))"

text \<open>
  The loop over \<open>modified.Services\<close>, whose map is at address \<open>sm\<close>: the names still to
  come, and the heap.  The deletions and stores into \<open>labels\<close> are one write to the label
  map's object; the last statement stores the service back under its name.
\<close>

fun inject_loop ::
    "ComposeManager \<Rightarrow> (nat \<Rightarrow> nat) \<Rightarrow> (string \<Rightarrow> string list) \<Rightarrow> Project \<Rightarrow> HComposeFile \<Rightarrow>
     string \<Rightarrow> addr \<Rightarrow> string list \<Rightarrow> 'a heap \<Rightarrow> 'a heap" where
  "inject_loop cm lc orders project compose mainService sm [] h = h"
| "inject_loop cm lc orders project compose mainService sm (name # names) h =
     (case map_of (services_at h sm) name of
        None \<Rightarrow> inject_loop cm lc orders project compose mainService sm names h
      | Some service \<Rightarrow>
          (let networks = getNetworksAsList_h (h_Networks service) h;
               networks = (if NetworkName \<in> set networks then networks
                           else networks @ [NetworkName]);
               la = fst (getLabelsAsMap_h (h_Labels service) h);
               h1 = snd (getLabelsAsMap_h (h_Labels service) h);
               labels = strmap_at h1 la;
               labelsToRemove =
                 filter (\<lambda>k. strings_HasPrefix k ''traefik.'' \<and> k \<noteq> ''traefik.enable'')
                   (map fst labels);
               labels = fold AList.delete labelsToRemove labels;
               labels = AList.update (LabelPrefix @ ''.managed'') ''true'' labels;
               labels = AList.update (LabelPrefix @ ''.project'') (ID project) labels;
               labels =
                 (if name = mainService \<or>
                     (mainService = [] \<and> name = findMainService_h h1 compose (orders name))
                  then fold (\<lambda>kv ls. AList.update (fst kv) (snd kv) ls)
                         (GenerateTraefikLabelsForCompose lc project (baseDomain cm) name) labels
                  else labels);
               h2 = h1[la := OStrMap labels];
               service' = service\<lparr>h_Networks := HStrSlice networks, h_Labels := HStrMapRef la\<rparr>;
               h3 = h2[sm := OServices (AList.update name service' (services_at h2 sm))]
           in inject_loop cm lc orders project compose mainService sm names h3))"

definition InjectLabels_h ::
    "ComposeManager \<Rightarrow> (nat \<Rightarrow> nat) \<Rightarrow> (string \<Rightarrow> string list) \<Rightarrow> Project \<Rightarrow> HComposeFile \<Rightarrow>
     string \<Rightarrow> 'a heap \<Rightarrow> HComposeFile \<times> 'a heap" where
  "InjectLabels_h cm lc orders project compose mainService h =
     (let entries = (case h_Services compose of None \<Rightarrow> [] | Some a \<Rightarrow> services_at h a);
          sm = fst (alloc (OServices entries) h);
          h1 = snd (alloc (OServices entries) h);
          nm = (case h_FileNetworks compose of None \<Rightarrow> fst (alloc (OMap []) h1) | Some a \<Rightarrow> a);
          h2 = (case h_FileNetworks compose of None \<Rightarrow> snd (alloc (OMap []) h1) | Some a \<Rightarrow> h1);
          ext = fst (alloc (OMap [(''external'', HBool True)]) h2);
          h3 = snd (alloc (OMap [(''external'', HBool True)]) h2);
          h4 = h3[nm := OMap (AList.update NetworkName (HMapRef ext) (map_at h3 nm))];
          h5 = inject_loop cm lc orders project compose mainService sm (map fst entries) h4
      in (compose\<lparr>h_Services := Some sm, h_FileNetworks := Some nm\<rparr>, h5))"

text \<open>
  A document as the YAML decoder leaves it for a file with the service \<open>web\<close> and a
  top-level \<open>networks\<close> section: the services map at address 0, the networks map at
  address 1 and the labels of \<open>web\<close> at address 2.
\<close>

definition heap0 :: "unit heap" where
  "heap0 =
     [OServices [(''web'', \<lparr>h_Networks = HSlice [HString ''backend''], h_Labels = HMapRef 2\<rparr>)],
      OMap [(''backend'', HNil)],
      OMap [(''tier'', HString ''front'')]]"

definition doc0 :: HComposeFile where
  "doc0 = \<lparr>h_Version = ''3'', h_Services = Some 0, h_FileNetworks = Some 1, h_Volumes = None\<rparr>"

subsection \<open>The input document after the call\<close>

text \<open>
  Claim C9, where the code departs from it.  \<open>modified := *compose\<close> copies the struct, so
  \<open>modified.Networks\<close> is the caller's map whenever that map is not nil, and the store of
  the \<open>slimdeploy\<close> network goes into it.  For the document \<open>doc0\<close>: the result points to
  the same networks map (address 1) as the input, and after the call that map holds the
  entry \<open>slimdeploy\<close>, which it did not hold before; the input's services map (address 0)
  is as before, the copy being at address 3.
\<close>

theorem InjectLabels_mutates_networks:
  "fst (InjectLabels_h manager lc orders demo doc0 [] heap0) =
     \<lparr>h_Version = ''3'', h_Services = Some 3, h_FileNetworks = Some 1, h_Volumes = None\<rparr> \<and>
   map_at heap0 1 = [(''backend'', HNil)] \<and>
   map_at (snd (InjectLabels_h manager lc orders demo doc0 [] heap0)) 1 =
     [(''backend'', HNil), (''slimdeploy'', HMapRef 4)] \<and>
   services_at (snd (InjectLabels_h manager lc orders demo doc0 [] heap0)) 0 = services_at heap0 0"
  by (simp add: InjectLabels_h_def heap0_def doc0_def alloc_def map_at_def services_at_def
      strmap_at_def getNetworksAsList_h_def getLabelsAsMap_h_def NetworkName_def Let_def
      nth_append)

end
